theory Spec2Isabelle
  imports Main "HOL-Library.Word" "HOL-Library.Code_Target_Nat"
begin

section \<open>Regular expressions as the address code uses them\<close>

text \<open>
  The three patterns of \<^verbatim>\<open>common.go\<close> are built from literal strings, byte classes,
  concatenation, alternation, \<^verbatim>\<open>?\<close>, \<^verbatim>\<open>+\<close>, capturing groups and the anchors
  \<^verbatim>\<open>^\<close> and \<^verbatim>\<open>$\<close> (without the multi-line flag: beginning and end of the text).
  A Go string is a byte sequence, here a \<^typ>\<open>string\<close>; every class of the three patterns
  is ASCII, so a byte above 127 matches none of them, exactly as the rune it belongs to.
\<close>

datatype regex =
    Lit string
  | Cls "(char \<times> char) list"
  | Cat regex regex
  | Alt regex regex
  | Opt regex
  | Plus regex
  | Cap nat regex
  | BeginText
  | EndText

text \<open>
  A matcher state is the text still to be read and the groups captured so far (the most
  recent binding first).
\<close>

type_synonym caps = "(nat \<times> string) list"
type_synonym mstate = "string \<times> caps"

definition in_class :: "(char \<times> char) list \<Rightarrow> char \<Rightarrow> bool" where
  "in_class rs c =
     list_ex (\<lambda>(lo, hi). (of_char lo :: nat) \<le> of_char c \<and> (of_char c :: nat) \<le> of_char hi) rs"

text \<open>
  \<open>run r n st\<close> lists every way \<open>r\<close> matches at \<open>st\<close>, in the order of preference of Go's
  leftmost-first matching: the left alternative before the right one, one more iteration
  before stopping, a group taken before it is skipped. \<open>n\<close> is the length of the whole
  text, which \<^verbatim>\<open>^\<close> needs. An iteration of \<^verbatim>\<open>+\<close> is repeated only after it has consumed
  input, which is also what makes \<open>plus_iter\<close> total.
\<close>

fun plus_iter :: "(mstate \<Rightarrow> mstate list) \<Rightarrow> mstate \<Rightarrow> mstate list" where
  "plus_iter f st =
     concat (map (\<lambda>st'. (if length (fst st') < length (fst st) then plus_iter f st' else []) @ [st'])
                 (f st))"

declare plus_iter.simps [simp del]

primrec run :: "regex \<Rightarrow> nat \<Rightarrow> mstate \<Rightarrow> mstate list" where
  "run (Lit w) n st =
     (if take (length w) (fst st) = w then [(drop (length w) (fst st), snd st)] else [])"
| "run (Cls rs) n st =
     (case fst st of [] \<Rightarrow> [] | x # xs \<Rightarrow> if in_class rs x then [(xs, snd st)] else [])"
| "run (Cat a b) n st = concat (map (run b n) (run a n st))"
| "run (Alt a b) n st = run a n st @ run b n st"
| "run (Opt a) n st = run a n st @ [st]"
| "run (Plus a) n st = plus_iter (run a n) st"
| "run (Cap k a) n st =
     map (\<lambda>st'. (fst st', (k, take (length (fst st) - length (fst st')) (fst st)) # snd st'))
         (run a n st)"
| "run BeginText n st = (if length (fst st) = n then [st] else [])"
| "run EndText n st = (if fst st = [] then [st] else [])"

primrec num_subexp :: "regex \<Rightarrow> nat" where
  "num_subexp (Lit w) = 0"
| "num_subexp (Cls rs) = 0"
| "num_subexp (Cat a b) = max (num_subexp a) (num_subexp b)"
| "num_subexp (Alt a b) = max (num_subexp a) (num_subexp b)"
| "num_subexp (Opt a) = num_subexp a"
| "num_subexp (Plus a) = num_subexp a"
| "num_subexp (Cap k a) = max k (num_subexp a)"
| "num_subexp BeginText = 0"
| "num_subexp EndText = 0"

text \<open>The leftmost match: the first start offset at which the pattern matches at all.\<close>

fun search :: "regex \<Rightarrow> nat \<Rightarrow> string \<Rightarrow> (string \<times> mstate) option" where
  "search r n [] = (case run r n ([], []) of [] \<Rightarrow> None | st # _ \<Rightarrow> Some ([], st))"
| "search r n (x # xs) =
     (case run r n (x # xs, []) of [] \<Rightarrow> search r n xs | st # _ \<Rightarrow> Some (x # xs, st))"

text \<open>
  \<^verbatim>\<open>(*Regexp).FindStringSubmatch\<close>: \<open>None\<close> is the nil slice of no match; otherwise
  element 0 is the matched text and element \<open>i\<close> the text of group \<open>i\<close>, the empty string
  for a group that took no part in the match.
\<close>

definition FindStringSubmatch :: "regex \<Rightarrow> string \<Rightarrow> string list option" where
  "FindStringSubmatch re s =
     (case search re (length s) s of
        None \<Rightarrow> None
      | Some (s0, (rest, cs)) \<Rightarrow>
          Some (take (length s0 - length rest) s0 #
                map (\<lambda>i. case map_of cs i of None \<Rightarrow> [] | Some v \<Rightarrow> v) [1..<Suc (num_subexp re)]))"

text \<open>The byte classes \<^verbatim>\<open>[+a-z]\<close>, \<^verbatim>\<open>[0-9a-z.-]\<close>, \<^verbatim>\<open>[:0-9a-fA-F]\<close> and \<^verbatim>\<open>[0-9]\<close>.\<close>

definition schemeClass :: "(char \<times> char) list" where
  "schemeClass = [(CHR ''+'', CHR ''+''), (CHR ''a'', CHR ''z'')]"

definition hostClass :: "(char \<times> char) list" where
  "hostClass = [(CHR ''0'', CHR ''9''), (CHR ''a'', CHR ''z''), (CHR ''.'', CHR ''.''), (CHR ''-'', CHR ''-'')]"

definition hexClass :: "(char \<times> char) list" where
  "hexClass = [(CHR '':'', CHR '':''), (CHR ''0'', CHR ''9''), (CHR ''a'', CHR ''f''), (CHR ''A'', CHR ''F'')]"

definition digitClass :: "(char \<times> char) list" where
  "digitClass = [(CHR ''0'', CHR ''9'')]"

text \<open>\<^verbatim>\<open>schemeRegexp = "^[+a-z]+$"\<close>\<close>

definition schemeRegexp :: regex where
  "schemeRegexp = Cat BeginText (Cat (Plus (Cls schemeClass)) EndText)"

text \<open>\<^verbatim>\<open>hostRegexp = "^[0-9a-z.-]+$|^\\[[:0-9a-fA-F]+\\]$"\<close>\<close>

definition hostRegexp :: regex where
  "hostRegexp =
     Alt (Cat BeginText (Cat (Plus (Cls hostClass)) EndText))
         (Cat BeginText (Cat (Lit ''['') (Cat (Plus (Cls hexClass)) (Cat (Lit '']'') EndText))))"

text \<open>
  \<^verbatim>\<open>addressRegexp = "^(([+a-z]+):\\/\\/)?([0-9a-z.-]+|\\[[:0-9a-fA-F]+\\])?(:([0-9]+))?$"\<close>,
  in four pieces: the scheme group, the host group, the port group and the rest of the
  pattern after the scheme group.
\<close>

definition schemeGroup :: regex where
  "schemeGroup =
     Opt (Cap 1 (Cat (Cap 2 (Plus (Cls schemeClass)))
                     (Lit ''://'')))"

definition hostGroup :: regex where
  "hostGroup =
     Opt (Cap 3 (Alt (Plus (Cls hostClass))
                     (Cat (Lit ''['') (Cat (Plus (Cls hexClass)) (Lit '']'')))))"

definition portGroup :: regex where
  "portGroup = Opt (Cap 4 (Cat (Lit '':'') (Cap 5 (Plus (Cls digitClass)))))"

definition addressRegexp :: regex where
  "addressRegexp = Cat BeginText (Cat schemeGroup (Cat hostGroup (Cat portGroup EndText)))"

section \<open>Numbers and text\<close>

text \<open>
  \<^verbatim>\<open>strconv.Atoi\<close> is \<^verbatim>\<open>ParseInt(s, 10, 0)\<close>: an optional sign, then \<^verbatim>\<open>ParseUint\<close>'s loop
  over the digits, which stops with a range error as soon as the value leaves 64 bits,
  then the check against the range of \<^verbatim>\<open>int\<close>. \<open>intSize\<close> is the width of \<^verbatim>\<open>int\<close>, 64 on
  the platforms the server is built for.
\<close>

datatype NumError = ErrSyntax | ErrRange

definition intSize :: nat where
  "intSize = 64"

definition is_digit :: "char \<Rightarrow> bool" where
  "is_digit c = ((of_char CHR ''0'' :: nat) \<le> of_char c \<and> (of_char c :: nat) \<le> of_char CHR ''9'')"

definition digit_val :: "char \<Rightarrow> nat" where
  "digit_val c = of_char c - of_char CHR ''0''"

fun ParseUint_loop :: "nat \<Rightarrow> nat \<Rightarrow> nat \<Rightarrow> string \<Rightarrow> NumError + nat" where
  "ParseUint_loop cutoff maxVal n [] = Inr n"
| "ParseUint_loop cutoff maxVal n (d # ds) =
     (if \<not> is_digit d then Inl ErrSyntax
      else if n \<ge> cutoff then Inl ErrRange
      else if n * 10 + digit_val d > maxVal then Inl ErrRange
      else ParseUint_loop cutoff maxVal (n * 10 + digit_val d) ds)"

definition ParseUint :: "string \<Rightarrow> nat \<Rightarrow> NumError + nat" where
  "ParseUint s bitSize =
     (if s = [] then Inl ErrSyntax
      else ParseUint_loop ((2 ^ 64 - 1) div 10 + 1) (2 ^ bitSize - 1) 0 s)"

definition ParseInt :: "string \<Rightarrow> nat \<Rightarrow> NumError + int" where
  "ParseInt s bitSize0 =
     (let bitSize = (if bitSize0 = 0 then intSize else bitSize0) in
      if s = [] then Inl ErrSyntax
      else
        let neg = (hd s = CHR ''-'');
            s' = (if hd s = CHR ''+'' \<or> hd s = CHR ''-'' then tl s else s)
        in case ParseUint s' bitSize of
             Inl e \<Rightarrow> Inl e
           | Inr un \<Rightarrow>
               let cutoff = 2 ^ (bitSize - 1) in
               if \<not> neg \<and> un \<ge> cutoff then Inl ErrRange
               else if neg \<and> un > cutoff then Inl ErrRange
               else Inr (if neg then - int un else int un))"

definition Atoi :: "string \<Rightarrow> NumError + int" where
  "Atoi s = ParseInt s 0"

text \<open>The verb \<^verbatim>\<open>%d\<close> of \<^verbatim>\<open>fmt.Sprintf\<close> on an unsigned value: its decimal digits.\<close>

fun itoa :: "nat \<Rightarrow> string" where
  "itoa n = (if n < 10 then [char_of (48 + n)] else itoa (n div 10) @ [char_of (48 + n mod 10)])"

declare itoa.simps [simp del]

text \<open>
  \<^verbatim>\<open>strings.Index(s, substr)\<close>: the offset of the first occurrence of \<open>substr\<close> in \<open>s\<close>,
  or -1.
\<close>

fun Index_from :: "nat \<Rightarrow> string \<Rightarrow> string \<Rightarrow> int" where
  "Index_from i [] sub = (if sub = [] then int i else -1)"
| "Index_from i (x # xs) sub =
     (if take (length sub) (x # xs) = sub then int i else Index_from (Suc i) xs sub)"

definition Index :: "string \<Rightarrow> string \<Rightarrow> int" where
  "Index s sub = Index_from 0 s sub"

section \<open>The URI\<close>

record URI =
  scheme :: string
  host :: string
  port :: "16 word"

text \<open>An error is the message \<^verbatim>\<open>errors.New\<close> was given.\<close>

datatype error = errors_New string

definition DefaultURI :: URI where
  "DefaultURI = \<lparr>scheme = ''http'', host = ''localhost'', port = 10101\<rparr>"

text \<open>
  The setters work on the URI they are called on: the model returns the error, if any,
  and the URI as the call leaves it.
\<close>

definition SetScheme :: "URI \<Rightarrow> string \<Rightarrow> error option \<times> URI" where
  "SetScheme u s =
     (case FindStringSubmatch schemeRegexp s of
        None \<Rightarrow> (Some (errors_New ''invalid scheme''), u)
      | Some m \<Rightarrow> (None, u\<lparr>scheme := s\<rparr>))"

definition SetHost :: "URI \<Rightarrow> string \<Rightarrow> error option \<times> URI" where
  "SetHost u h =
     (case FindStringSubmatch hostRegexp h of
        None \<Rightarrow> (Some (errors_New ''invalid host''), u)
      | Some m \<Rightarrow> (None, u\<lparr>host := h\<rparr>))"

definition SetPort :: "URI \<Rightarrow> 16 word \<Rightarrow> URI" where
  "SetPort u p = u\<lparr>port := p\<rparr>"

text \<open>A method on \<^verbatim>\<open>*URI\<close> can be called on nil: the receiver is optional.\<close>

definition HostPort :: "URI option \<Rightarrow> string" where
  "HostPort u =
     (case u of
        None \<Rightarrow> ''''
      | Some v \<Rightarrow> host v @ '':'' @ itoa (unat (port v)))"

definition Normalize :: "URI \<Rightarrow> string" where
  "Normalize u =
     (let index = Index (scheme u) ''+'';
          scheme' = (if index \<ge> 0 then take (nat index) (scheme u) else scheme u)
      in scheme' @ ''://'' @ host u @ '':'' @ itoa (unat (port u)))"

definition String :: "URI \<Rightarrow> string" where
  "String u = scheme u @ ''://'' @ host u @ '':'' @ itoa (unat (port u))"

definition Equals :: "URI \<Rightarrow> URI option \<Rightarrow> bool" where
  "Equals u other = (case other of None \<Rightarrow> False | Some v \<Rightarrow> u = v)"

definition Path :: "URI \<Rightarrow> string \<Rightarrow> string" where
  "Path u path = Normalize u @ path"

text \<open>
  \<^verbatim>\<open>parseAddress\<close>. A match of \<open>addressRegexp\<close> has six elements, so \<open>m ! 2\<close>, \<open>m ! 3\<close> and
  \<open>m ! 5\<close> are in range (lemma \<open>FindStringSubmatch_length\<close>). \<^verbatim>\<open>uint16(port)\<close> keeps the
  low 16 bits of the \<^verbatim>\<open>int\<close>.
\<close>

definition parseAddress :: "string \<Rightarrow> error + URI" where
  "parseAddress address =
     (case FindStringSubmatch addressRegexp address of
        None \<Rightarrow> Inl (errors_New ''invalid address'')
      | Some m \<Rightarrow>
          let scheme' = (if m ! 2 \<noteq> '''' then m ! 2 else ''http'');
              host' = (if m ! 3 \<noteq> '''' then m ! 3 else ''localhost'')
          in if m ! 5 \<noteq> '''' then
               (case Atoi (m ! 5) of
                  Inl e \<Rightarrow> Inl (errors_New ''converting port string to int'')
                | Inr port' \<Rightarrow> Inr \<lparr>scheme = scheme', host = host', port = word_of_int port'\<rparr>)
             else Inr \<lparr>scheme = scheme', host = host', port = word_of_int 10101\<rparr>)"

definition NewURIFromAddress :: "string \<Rightarrow> error + URI" where
  "NewURIFromAddress address = parseAddress address"

section \<open>The wire envelope\<close>

record internal_URI =
  Scheme :: string
  Host :: string
  Port :: "32 word"

definition encodeURI :: "URI \<Rightarrow> internal_URI" where
  "encodeURI u = \<lparr>Scheme = scheme u, Host = host u, Port = ucast (port u)\<rparr>"


definition decodeURI :: "internal_URI option \<Rightarrow> URI" where
  "decodeURI i =
     (case i of
        None \<Rightarrow> \<lparr>scheme = '''', host = '''', port = 0\<rparr>
      | Some e \<Rightarrow> \<lparr>scheme = Scheme e, host = Host e, port = ucast (Port e)\<rparr>)"

definition DecodeURI :: "internal_URI option \<Rightarrow> URI" where
  "DecodeURI i = decodeURI i"

text \<open>
  A slice is nil (\<open>None\<close>) or a sequence. \<^verbatim>\<open>make\<close> fills the new slice with zero values and
  the loop overwrites it index by index.
\<close>

definition len :: "'a list option \<Rightarrow> nat" where
  "len a = (case a of None \<Rightarrow> 0 | Some xs \<Rightarrow> length xs)"

definition encodeURIs :: "URI list option \<Rightarrow> internal_URI option list option" where
  "encodeURIs a =
     (if len a = 0 then None
      else Some (fold (\<lambda>i other. other[i := Some (encodeURI (the a ! i))])
                      [0..<len a] (replicate (len a) None)))"

definition decodeURIs :: "internal_URI option list option \<Rightarrow> URI list option" where
  "decodeURIs a =
     (if len a = 0 then None
      else Some (fold (\<lambda>i other. other[i := decodeURI (the a ! i)])
                      [0..<len a] (replicate (len a) \<lparr>scheme = '''', host = '''', port = 0\<rparr>)))"

section \<open>The address grammar in the specification's words\<close>

text \<open>
  The specification describes an address as \<^verbatim>\<open>(<scheme>://)? (<host>)? (:<port>)?\<close>: a
  scheme of lowercase letters and \<^verbatim>\<open>+\<close>, a host of lowercase letters, digits, \<^verbatim>\<open>.\<close> and
  \<^verbatim>\<open>-\<close> or a bracketed literal of hexadecimal digits and colons, a port of decimal digits.
  These definitions follow that description, not the patterns of the code; the theorems
  below compare the two.
\<close>

definition is_lower :: "char \<Rightarrow> bool" where
  "is_lower c = ((of_char CHR ''a'' :: nat) \<le> of_char c \<and> (of_char c :: nat) \<le> of_char CHR ''z'')"

definition scheme_char :: "char \<Rightarrow> bool" where
  "scheme_char c = (is_lower c \<or> c = CHR ''+'')"

definition host_char :: "char \<Rightarrow> bool" where
  "host_char c = (is_lower c \<or> is_digit c \<or> c = CHR ''.'' \<or> c = CHR ''-'')"

definition hex_colon_char :: "char \<Rightarrow> bool" where
  "hex_colon_char c =
     (c = CHR '':'' \<or> is_digit c
      \<or> ((of_char CHR ''a'' :: nat) \<le> of_char c \<and> (of_char c :: nat) \<le> of_char CHR ''f'')
      \<or> ((of_char CHR ''A'' :: nat) \<le> of_char c \<and> (of_char c :: nat) \<le> of_char CHR ''F''))"

definition valid_scheme :: "string \<Rightarrow> bool" where
  "valid_scheme s = (s \<noteq> [] \<and> list_all scheme_char s)"

definition bare_host :: "string \<Rightarrow> bool" where
  "bare_host h = (h \<noteq> [] \<and> list_all host_char h)"

definition bracketed_host :: "string \<Rightarrow> bool" where
  "bracketed_host h =
     (3 \<le> length h \<and> hd h = CHR ''['' \<and> last h = CHR '']''
      \<and> list_all hex_colon_char (butlast (tl h)))"

definition valid_host :: "string \<Rightarrow> bool" where
  "valid_host h = (bare_host h \<or> bracketed_host h)"

definition valid_port :: "string \<Rightarrow> bool" where
  "valid_port p = (p \<noteq> [] \<and> list_all is_digit p)"

definition scheme_part :: "string option \<Rightarrow> string" where
  "scheme_part so = (case so of None \<Rightarrow> [] | Some s \<Rightarrow> s @ ''://'')"

definition host_part :: "string option \<Rightarrow> string" where
  "host_part ho = (case ho of None \<Rightarrow> [] | Some h \<Rightarrow> h)"

definition port_part :: "string option \<Rightarrow> string" where
  "port_part po = (case po of None \<Rightarrow> [] | Some p \<Rightarrow> '':'' @ p)"

definition address_of :: "string option \<Rightarrow> string option \<Rightarrow> string option \<Rightarrow> string" where
  "address_of so ho po = scheme_part so @ host_part ho @ port_part po"

definition matches_grammar :: "string \<Rightarrow> bool" where
  "matches_grammar a =
     (\<exists>so ho po. pred_option valid_scheme so \<and> pred_option valid_host ho
                 \<and> pred_option valid_port po \<and> a = address_of so ho po)"

text \<open>The value a string of decimal digits denotes.\<close>

definition dec_val :: "string \<Rightarrow> nat" where
  "dec_val ds = foldl (\<lambda>n d. n * 10 + digit_val d) 0 ds"

definition dec_from :: "nat \<Rightarrow> string \<Rightarrow> nat" where
  "dec_from n ds = foldl (\<lambda>n d. n * 10 + digit_val d) n ds"

text \<open>
  The matcher in continuation form, for the proofs: what \<open>K\<close> yields on every result of
  \<open>r\<close>, in order.
\<close>

definition bind :: "regex \<Rightarrow> nat \<Rightarrow> (mstate \<Rightarrow> 'a list) \<Rightarrow> mstate \<Rightarrow> 'a list" where
  "bind r n K st = concat (map K (run r n st))"

text \<open>The groups a match of the address pattern captures, for the proofs.\<close>

definition port_caps :: "string option \<Rightarrow> caps" where
  "port_caps po = (case po of None \<Rightarrow> [] | Some p \<Rightarrow> [(4, '':'' @ p), (5, p)])"

definition host_caps :: "string option \<Rightarrow> caps" where
  "host_caps ho = (case ho of None \<Rightarrow> [] | Some h \<Rightarrow> [(3, h)])"

definition scheme_caps :: "string option \<Rightarrow> caps" where
  "scheme_caps so = (case so of None \<Rightarrow> [] | Some s \<Rightarrow> [(1, s @ ''://''), (2, s)])"

section \<open>The JSON codec\<close>

text \<open>
  \<^verbatim>\<open>MarshalJSON\<close> and \<^verbatim>\<open>UnmarshalJSON\<close> call \<^verbatim>\<open>json.Marshal\<close> and \<^verbatim>\<open>json.Unmarshal\<close> of the
  standard library on a struct of two strings and a \<^verbatim>\<open>uint16\<close>. The part of the library
  these two calls run is embedded here: the decoder and encoder of \<^verbatim>\<open>unicode/utf8\<close>, the
  string encoder of \<^verbatim>\<open>encoding/json\<close>, its scanner and string unquoting, and its stores
  into a string field and an unsigned field. A string is a string of bytes; a rune is a
  natural number.
\<close>

text \<open>
  \<^verbatim>\<open>utf8.DecodeRune\<close> returns the rune at the head of the bytes and its width; on an
  invalid or truncated encoding it returns \<^verbatim>\<open>RuneError\<close> (U+FFFD) with width 1, on no bytes
  with width 0. The second byte of a sequence has a narrower range after the leading
  bytes \<^verbatim>\<open>E0\<close>, \<^verbatim>\<open>ED\<close>, \<^verbatim>\<open>F0\<close> and \<^verbatim>\<open>F4\<close>. \<^verbatim>\<open>utf8.EncodeRune\<close> writes a rune in one to four
  bytes, U+FFFD for a surrogate or a rune out of range. \<^verbatim>\<open>utf8.ValidString\<close> holds when
  no position decodes to \<^verbatim>\<open>RuneError\<close> with width 1.
\<close>

definition byte :: "char \<Rightarrow> nat" where
  "byte c = of_char c"

definition RuneError :: nat where
  "RuneError = 0xFFFD"

fun DecodeRune :: "string \<Rightarrow> nat \<times> nat" where
  "DecodeRune [] = (RuneError, 0)"
| "DecodeRune (p0 # p) =
     (let b0 = byte p0 in
      if b0 < 0x80 then (b0, 1)
      else if b0 < 0xC2 \<or> 0xF4 < b0 then (RuneError, 1)
      else
        let sz = (if b0 < 0xE0 then 2 else if b0 < 0xF0 then 3 else 4) :: nat;
            lo = (if b0 = 0xE0 then 0xA0 else if b0 = 0xF0 then 0x90 else 0x80);
            hi = (if b0 = 0xED then 0x9F else if b0 = 0xF4 then 0x8F else 0xBF)
        in if length (p0 # p) < sz then (RuneError, 1)
           else
             let b1 = byte (p ! 0) in
             if b1 < lo \<or> hi < b1 then (RuneError, 1)
             else if sz = 2 then ((b0 mod 32) * 64 + b1 mod 64, 2)
             else
               let b2 = byte (p ! 1) in
               if b2 < 0x80 \<or> 0xBF < b2 then (RuneError, 1)
               else if sz = 3 then ((b0 mod 16) * 4096 + (b1 mod 64) * 64 + b2 mod 64, 3)
               else
                 let b3 = byte (p ! 2) in
                 if b3 < 0x80 \<or> 0xBF < b3 then (RuneError, 1)
                 else ((b0 mod 8) * 262144 + (b1 mod 64) * 4096 + (b2 mod 64) * 64 + b3 mod 64, 4))"

definition encode3 :: "nat \<Rightarrow> string" where
  "encode3 r = [char_of (0xE0 + r div 4096), char_of (0x80 + r div 64 mod 64), char_of (0x80 + r mod 64)]"

definition EncodeRune :: "nat \<Rightarrow> string" where
  "EncodeRune r =
     (if r \<le> 0x7F then [char_of r]
      else if r \<le> 0x7FF then [char_of (0xC0 + r div 64), char_of (0x80 + r mod 64)]
      else if 0x10FFFF < r \<or> (0xD800 \<le> r \<and> r \<le> 0xDFFF) then encode3 RuneError
      else if r \<le> 0xFFFF then encode3 r
      else [char_of (0xF0 + r div 262144), char_of (0x80 + r div 4096 mod 64),
            char_of (0x80 + r div 64 mod 64), char_of (0x80 + r mod 64)])"

fun ValidString :: "string \<Rightarrow> bool" where
  "ValidString [] = True"
| "ValidString (b # s) =
     (case DecodeRune (b # s) of
        (c, n) \<Rightarrow> \<not> (c = RuneError \<and> n = 1) \<and> ValidString (drop (n - 1) s))"

text \<open>
  The string encoder of \<^verbatim>\<open>json.Marshal\<close>: between double quotes, a byte below \<^verbatim>\<open>0x80\<close> is
  written as it is unless it is a control character, a double quote, a backslash or one
  of \<^verbatim>\<open><\<close>, \<^verbatim>\<open>>\<close>, \<^verbatim>\<open>&\<close>, which are escaped; a byte that does not start a valid encoding
  is written as the six characters \<^verbatim>\<open>\ufffd\<close>; U+2028 and U+2029 are escaped; every other
  rune is copied.
\<close>

definition hex :: string where
  "hex = ''0123456789abcdef''"

definition htmlSafe :: "char \<Rightarrow> bool" where
  "htmlSafe b = (0x20 \<le> byte b \<and> byte b < 0x80 \<and> b \<noteq> CHR 0x22 \<and> b \<noteq> CHR 0x5C
                 \<and> b \<noteq> CHR ''<'' \<and> b \<noteq> CHR ''>'' \<and> b \<noteq> CHR ''&'')"

fun encode_string_body :: "string \<Rightarrow> string" where
  "encode_string_body [] = []"
| "encode_string_body (b # s) =
     (if byte b < 0x80 then
        (if htmlSafe b then [b]
         else if b = CHR 0x5C \<or> b = CHR 0x22 then [CHR 0x5C, b]
         else if b = CHR 0x0A then [CHR 0x5C, CHR ''n'']
         else if b = CHR 0x0D then [CHR 0x5C, CHR ''r'']
         else if b = CHR 0x09 then [CHR 0x5C, CHR ''t'']
         else CHR 0x5C # ''u00'' @ [hex ! (byte b div 16), hex ! (byte b mod 16)])
        @ encode_string_body s
      else
        (case DecodeRune (b # s) of
           (c, n) \<Rightarrow>
             if c = RuneError \<and> n = 1 then CHR 0x5C # ''ufffd'' @ encode_string_body s
             else if c = 0x2028 \<or> c = 0x2029 then
               CHR 0x5C # ''u202'' @ [hex ! (c mod 16)] @ encode_string_body (drop (n - 1) s)
             else b # take (n - 1) s @ encode_string_body (drop (n - 1) s)))"

definition encode_string :: "string \<Rightarrow> string" where
  "encode_string s = CHR 0x22 # encode_string_body s @ [CHR 0x22]"

text \<open>
  The unquoting of a string literal by the decoder, from the byte after the opening
  quote: it returns the bytes denoted and the rest of the input after the closing quote,
  or nothing when the literal is malformed. An escape \<^verbatim>\<open>\uXXXX\<close> gives the rune, a pair of
  surrogate escapes gives the rune they encode, a lone surrogate gives U+FFFD, and a raw
  byte sequence that is not valid UTF-8 gives U+FFFD for each invalid byte.
\<close>

definition hex_val :: "char \<Rightarrow> nat option" where
  "hex_val c =
     (if is_digit c then Some (byte c - byte CHR ''0'')
      else if byte CHR ''a'' \<le> byte c \<and> byte c \<le> byte CHR ''f'' then Some (byte c - byte CHR ''a'' + 10)
      else if byte CHR ''A'' \<le> byte c \<and> byte c \<le> byte CHR ''F'' then Some (byte c - byte CHR ''A'' + 10)
      else None)"

definition getu4 :: "string \<Rightarrow> nat option" where
  "getu4 s =
     (case s of
        a # b # c # d # _ \<Rightarrow>
          (case (hex_val a, hex_val b, hex_val c, hex_val d) of
             (Some w, Some x, Some y, Some z) \<Rightarrow> Some (((w * 16 + x) * 16 + y) * 16 + z)
           | _ \<Rightarrow> None)
      | _ \<Rightarrow> None)"

definition IsSurrogate :: "nat \<Rightarrow> bool" where
  "IsSurrogate r = (0xD800 \<le> r \<and> r < 0xE000)"

definition utf16_DecodeRune :: "nat \<Rightarrow> nat \<Rightarrow> nat" where
  "utf16_DecodeRune r1 r2 =
     (if 0xD800 \<le> r1 \<and> r1 < 0xDC00 \<and> 0xDC00 \<le> r2 \<and> r2 < 0xE000
      then (r1 - 0xD800) * 1024 + (r2 - 0xDC00) + 0x10000
      else RuneError)"

definition simple_escape :: "char \<Rightarrow> char option" where
  "simple_escape e =
     (if e = CHR 0x22 \<or> e = CHR 0x5C \<or> e = CHR ''/'' then Some e
      else if e = CHR ''b'' then Some (CHR 0x08)
      else if e = CHR ''f'' then Some (CHR 0x0C)
      else if e = CHR ''n'' then Some (CHR 0x0A)
      else if e = CHR ''r'' then Some (CHR 0x0D)
      else if e = CHR ''t'' then Some (CHR 0x09)
      else None)"

definition emit :: "string \<Rightarrow> (string \<times> string) option \<Rightarrow> (string \<times> string) option" where
  "emit w r = (case r of None \<Rightarrow> None | Some (t, rest) \<Rightarrow> Some (w @ t, rest))"

fun unquote_body :: "string \<Rightarrow> (string \<times> string) option" where
  "unquote_body [] = None"
| "unquote_body (c # s) =
     (if c = CHR 0x22 then Some ([], s)
      else if c = CHR 0x5C then
        (case s of
           [] \<Rightarrow> None
         | e # s' \<Rightarrow>
             if e = CHR ''u'' then
               (case getu4 s' of
                  None \<Rightarrow> None
                | Some rr \<Rightarrow>
                    if IsSurrogate rr then
                      (case (if take 2 (drop 4 s') = [CHR 0x5C, CHR ''u''] then getu4 (drop 6 s') else None) of
                         None \<Rightarrow> emit (EncodeRune RuneError) (unquote_body (drop 4 s'))
                       | Some rr1 \<Rightarrow>
                           if utf16_DecodeRune rr rr1 \<noteq> RuneError
                           then emit (EncodeRune (utf16_DecodeRune rr rr1)) (unquote_body (drop 10 s'))
                           else emit (EncodeRune RuneError) (unquote_body (drop 4 s')))
                    else emit (EncodeRune rr) (unquote_body (drop 4 s')))
             else
               (case simple_escape e of
                  None \<Rightarrow> None
                | Some ch \<Rightarrow> emit [ch] (unquote_body s')))
      else if byte c < 0x20 then None
      else if byte c < 0x80 then emit [c] (unquote_body s)
      else
        (case DecodeRune (c # s) of
           (rr, n) \<Rightarrow> emit (EncodeRune rr) (unquote_body (drop (n - 1) s))))"

text \<open>
  The syntax accepted by the scanner, read into a value. A number keeps its literal. The
  three parsers carry a bound on the depth of their calls; \<open>json_parse\<close> starts them with
  a bound that exceeds the length of the input, and the whole input must be one value
  between optional white space.
\<close>

datatype json =
    JNull
  | JBool bool
  | JNumber string
  | JString string
  | JArray "json list"
  | JObject "(string \<times> json) list"

definition is_space :: "char \<Rightarrow> bool" where
  "is_space c = (c = CHR '' '' \<or> c = CHR 0x09 \<or> c = CHR 0x0D \<or> c = CHR 0x0A)"

definition skip_ws :: "string \<Rightarrow> string" where
  "skip_ws s = dropWhile is_space s"

definition scan_digits :: "string \<Rightarrow> (string \<times> string) option" where
  "scan_digits s =
     (if takeWhile is_digit s = [] then None else Some (takeWhile is_digit s, dropWhile is_digit s))"

definition scan_int :: "string \<Rightarrow> (string \<times> string) option" where
  "scan_int s =
     (case s of
        [] \<Rightarrow> None
      | d # r \<Rightarrow>
          if d = CHR ''0'' then Some ([d], r)
          else if is_digit d then Some (d # takeWhile is_digit r, dropWhile is_digit r)
          else None)"

definition scan_frac :: "string \<Rightarrow> (string \<times> string) option" where
  "scan_frac s =
     (case s of
        [] \<Rightarrow> Some ([], [])
      | d # r \<Rightarrow>
          if d = CHR ''.'' then (case scan_digits r of None \<Rightarrow> None | Some (ds, r') \<Rightarrow> Some (d # ds, r'))
          else Some ([], s))"

definition scan_exp :: "string \<Rightarrow> (string \<times> string) option" where
  "scan_exp s =
     (case s of
        [] \<Rightarrow> Some ([], [])
      | e # r \<Rightarrow>
          if e = CHR ''e'' \<or> e = CHR ''E'' then
            (let sign = (if r \<noteq> [] \<and> (hd r = CHR ''+'' \<or> hd r = CHR ''-'') then [hd r] else []);
                 r1 = drop (length sign) r
             in case scan_digits r1 of None \<Rightarrow> None | Some (ds, r') \<Rightarrow> Some (e # sign @ ds, r'))
          else Some ([], s))"

definition scan_number :: "string \<Rightarrow> (string \<times> string) option" where
  "scan_number s =
     (let sign = (if s \<noteq> [] \<and> hd s = CHR ''-'' then ''-'' else []);
          s1 = drop (length sign) s
      in case scan_int s1 of
           None \<Rightarrow> None
         | Some (i, s2) \<Rightarrow>
             (case scan_frac s2 of
                None \<Rightarrow> None
              | Some (f, s3) \<Rightarrow>
                  (case scan_exp s3 of
                     None \<Rightarrow> None
                   | Some (e, s4) \<Rightarrow> Some (sign @ i @ f @ e, s4))))"

fun parse_value :: "nat \<Rightarrow> string \<Rightarrow> (json \<times> string) option"
  and parse_elements :: "nat \<Rightarrow> string \<Rightarrow> (json list \<times> string) option"
  and parse_members :: "nat \<Rightarrow> string \<Rightarrow> ((string \<times> json) list \<times> string) option"
where
  "parse_value 0 s = None"
| "parse_value (Suc f) s =
     (case skip_ws s of
        [] \<Rightarrow> None
      | c # r \<Rightarrow>
          if c = CHR ''{'' then
            (if take 1 (skip_ws r) = ''}'' then Some (JObject [], drop 1 (skip_ws r))
             else case parse_members f r of None \<Rightarrow> None | Some (ms, r') \<Rightarrow> Some (JObject ms, r'))
          else if c = CHR ''['' then
            (if take 1 (skip_ws r) = '']'' then Some (JArray [], drop 1 (skip_ws r))
             else case parse_elements f r of None \<Rightarrow> None | Some (vs, r') \<Rightarrow> Some (JArray vs, r'))
          else if c = CHR 0x22 then
            (case unquote_body r of None \<Rightarrow> None | Some (t, r') \<Rightarrow> Some (JString t, r'))
          else if c = CHR ''-'' \<or> is_digit c then
            (case scan_number (c # r) of None \<Rightarrow> None | Some (lit, r') \<Rightarrow> Some (JNumber lit, r'))
          else if take 4 (c # r) = ''true'' then Some (JBool True, drop 4 (c # r))
          else if take 5 (c # r) = ''false'' then Some (JBool False, drop 5 (c # r))
          else if take 4 (c # r) = ''null'' then Some (JNull, drop 4 (c # r))
          else None)"
| "parse_elements 0 s = None"
| "parse_elements (Suc f) s =
     (case parse_value f s of
        None \<Rightarrow> None
      | Some (v, r) \<Rightarrow>
          if take 1 (skip_ws r) = '','' then
            (case parse_elements f (drop 1 (skip_ws r)) of
               None \<Rightarrow> None
             | Some (vs, r') \<Rightarrow> Some (v # vs, r'))
          else if take 1 (skip_ws r) = '']'' then Some ([v], drop 1 (skip_ws r))
          else None)"
| "parse_members 0 s = None"
| "parse_members (Suc f) s =
     (if take 1 (skip_ws s) = [CHR 0x22] then
        (case unquote_body (drop 1 (skip_ws s)) of
           None \<Rightarrow> None
         | Some (k, r1) \<Rightarrow>
             if take 1 (skip_ws r1) = '':'' then
               (case parse_value f (drop 1 (skip_ws r1)) of
                  None \<Rightarrow> None
                | Some (v, r2) \<Rightarrow>
                    if take 1 (skip_ws r2) = '','' then
                      (case parse_members f (drop 1 (skip_ws r2)) of
                         None \<Rightarrow> None
                       | Some (ms, r3) \<Rightarrow> Some ((k, v) # ms, r3))
                    else if take 1 (skip_ws r2) = ''}'' then Some ([(k, v)], drop 1 (skip_ws r2))
                    else None)
             else None)
      else None)"























section \<open>Properties\<close>

subsection \<open>Rendering, equality and the wire envelope\<close>

lemma in_class_digit: "in_class digitClass c = is_digit c"
  by (simp add: in_class_def digitClass_def is_digit_def)



lemma Index_from_single:
  "Index_from i s [c] =
     (if c \<in> set s then int (i + length (takeWhile (\<lambda>x. x \<noteq> c) s)) else -1)"
  by (induction s arbitrary: i) auto

lemma takeWhile_notin: "c \<notin> set s \<Longrightarrow> takeWhile (\<lambda>x. x \<noteq> c) s = s"
  by (induction s) auto

lemma Normalize_eq:
  "Normalize u =
     takeWhile (\<lambda>c. c \<noteq> CHR ''+'') (scheme u) @ ''://'' @ host u @ '':'' @ itoa (unat (port u))"
  by (auto simp add: Normalize_def Index_def Index_from_single Let_def
        takeWhile_eq_take [symmetric] takeWhile_notin)

lemma parse_http_tls:
  "parseAddress ''http+tls://node1:9999'' = Inr \<lparr>scheme = ''http+tls'', host = ''node1'', port = 9999\<rparr>"
  by code_simp

lemma Normalize_http_tls:
  "Normalize \<lparr>scheme = ''http+tls'', host = ''node1'', port = 9999\<rparr> = ''http://node1:9999''"
  by code_simp

lemma String_http_tls:
  "String \<lparr>scheme = ''http+tls'', host = ''node1'', port = 9999\<rparr> = ''http+tls://node1:9999''"
  by code_simp

text \<open>
  The port is written with the verb \<^verbatim>\<open>%d\<close>. What \<open>itoa\<close> writes is a nonempty string of
  decimal digits whose value, read in base ten, is the number, and it begins with \<^verbatim>\<open>0\<close> only
  when it is \<^verbatim>\<open>0\<close> itself; these three facts fix the string.
\<close>

lemma digit_chars_all:
  "list_all (\<lambda>d. is_digit (char_of (48 + d)) \<and> digit_val (char_of (48 + d)) = d
                  \<and> (char_of (48 + d) = CHR ''0'') = (d = 0)) [0..<10]"
  by code_simp

lemma digit_char:
  assumes "d < 10"
  shows "is_digit (char_of (48 + d))" and "digit_val (char_of (48 + d)) = d"
    and "(char_of (48 + d) = CHR ''0'') = (d = 0)"
  using digit_chars_all assms by (simp_all add: list_all_iff)

lemma itoa_digits: "itoa n \<noteq> [] \<and> list_all is_digit (itoa n)"
proof (induction n rule: itoa.induct)
  case (1 n)
  show ?case
  proof (cases "n < 10")
    case True
    then show ?thesis using digit_char(1) [of n] by (simp add: itoa.simps [of n])
  next
    case False
    then show ?thesis using 1 digit_char(1) [of "n mod 10"] by (simp add: itoa.simps [of n])
  qed
qed

lemma itoa_hd: "0 < n \<Longrightarrow> hd (itoa n) \<noteq> CHR ''0''"
proof (induction n rule: itoa.induct)
  case (1 n)
  show ?case
  proof (cases "n < 10")
    case True
    then show ?thesis using digit_char(3) [of n] "1.prems" by (simp add: itoa.simps [of n])
  next
    case False
    then have "0 < n div 10" by simp
    then show ?thesis using 1 False itoa_digits [of "n div 10"] by (simp add: itoa.simps [of n])
  qed
qed

lemma dec_from_append: "dec_from n (xs @ [d]) = dec_from n xs * 10 + digit_val d"
  by (simp add: dec_from_def)

lemma dec_from_itoa: "dec_from 0 (itoa n) = n"
proof (induction n rule: itoa.induct)
  case (1 n)
  show ?case
  proof (cases "n < 10")
    case True
    then show ?thesis using digit_char(2) [of n] by (simp add: itoa.simps [of n] dec_from_def)
  next
    case False
    then show ?thesis
      using 1 digit_char(2) [of "n mod 10"] by (simp add: itoa.simps [of n] dec_from_append)
  qed
qed

lemma itoa_0: "itoa 0 = ''0''"
  by code_simp

lemma itoa_decimal:
  "valid_port (itoa n) \<and> dec_val (itoa n) = n \<and> (hd (itoa n) = CHR ''0'') = (itoa n = ''0'')"
proof (cases "n = 0")
  case True
  then show ?thesis
    using itoa_digits [of n] dec_from_itoa [of n]
    by (simp add: valid_port_def dec_val_def dec_from_def itoa_0)
next
  case False
  then have h: "hd (itoa n) \<noteq> CHR ''0''" using itoa_hd [of n] by simp
  then have "itoa n \<noteq> ''0''" by auto
  with h show ?thesis
    using itoa_digits [of n] dec_from_itoa [of n]
    by (simp add: valid_port_def dec_val_def dec_from_def)
qed

text \<open>
  Claim C5. The dialing form (\<open>Normalize\<close>) is the scheme up to its first \<^verbatim>\<open>+\<close>, then
  \<^verbatim>\<open>://\<close>, the host, \<^verbatim>\<open>:\<close> and the port in decimal; the display form (\<open>String\<close>) is the same
  with the whole scheme. The port in decimal is a string \<open>ds\<close> of digits, nonempty, whose
  base-ten value is the port and which has no leading zero (it begins with \<^verbatim>\<open>0\<close> only when
  it is \<^verbatim>\<open>0\<close>); both forms end with the same \<open>ds\<close>. The address
  \<^verbatim>\<open>http+tls://node1:9999\<close> parses to scheme \<^verbatim>\<open>http+tls\<close>, host \<^verbatim>\<open>node1\<close>, port 9999, whose
  dialing form is \<^verbatim>\<open>http://node1:9999\<close> and whose display form is
  \<^verbatim>\<open>http+tls://node1:9999\<close>.
\<close>

theorem Normalize_String_render:
  "(\<exists>ds. valid_port ds \<and> dec_val ds = unat (port u) \<and> (hd ds = CHR ''0'') = (ds = ''0'')
        \<and> Normalize u
            = takeWhile (\<lambda>c. c \<noteq> CHR ''+'') (scheme u) @ ''://'' @ host u @ '':'' @ ds
        \<and> String u = scheme u @ ''://'' @ host u @ '':'' @ ds)
   \<and> parseAddress ''http+tls://node1:9999''
       = Inr \<lparr>scheme = ''http+tls'', host = ''node1'', port = 9999\<rparr>
   \<and> Normalize \<lparr>scheme = ''http+tls'', host = ''node1'', port = 9999\<rparr> = ''http://node1:9999''
   \<and> String \<lparr>scheme = ''http+tls'', host = ''node1'', port = 9999\<rparr> = ''http+tls://node1:9999''"
proof -
  have "\<exists>ds. valid_port ds \<and> dec_val ds = unat (port u) \<and> (hd ds = CHR ''0'') = (ds = ''0'')
        \<and> Normalize u
            = takeWhile (\<lambda>c. c \<noteq> CHR ''+'') (scheme u) @ ''://'' @ host u @ '':'' @ ds
        \<and> String u = scheme u @ ''://'' @ host u @ '':'' @ ds"
    using itoa_decimal [of "unat (port u)"] Normalize_eq [of u]
    by (intro exI [of _ "itoa (unat (port u))"]) (simp add: String_def)
  then show ?thesis
    using parse_http_tls Normalize_http_tls String_http_tls by simp
qed

lemma parse_empty:
  "parseAddress '''' = Inr \<lparr>scheme = ''http'', host = ''localhost'', port = 10101\<rparr>"
  by code_simp

text \<open>
  Claim C6. Decoding the absent (nil) wire envelope gives the descriptor with empty
  scheme, empty host and port 0, which is not the descriptor with scheme \<^verbatim>\<open>http\<close>, host
  \<^verbatim>\<open>localhost\<close> and port 10101 that parsing the empty string gives.
\<close>

theorem decodeURI_nil_zero:
  "decodeURI None = \<lparr>scheme = '''', host = '''', port = 0\<rparr>
   \<and> DecodeURI None = \<lparr>scheme = '''', host = '''', port = 0\<rparr>
   \<and> parseAddress '''' = Inr \<lparr>scheme = ''http'', host = ''localhost'', port = 10101\<rparr>
   \<and> parseAddress '''' = Inr DefaultURI
   \<and> parseAddress '''' \<noteq> Inr (decodeURI None)"
  using parse_empty by (simp add: decodeURI_def DecodeURI_def DefaultURI_def)

text \<open>
  Claim C7. \<open>Equals\<close> holds exactly when scheme, host and port are the same, with no
  normalisation: schemes \<^verbatim>\<open>http\<close> and \<^verbatim>\<open>http+tls\<close> with the same host and port are not
  equal. Against nil it is false. It is reflexive and symmetric.
\<close>

theorem Equals_exact:
  "Equals u (Some v) = (scheme u = scheme v \<and> host u = host v \<and> port u = port v)
   \<and> \<not> Equals u None
   \<and> Equals u (Some u)
   \<and> Equals u (Some v) = Equals v (Some u)
   \<and> \<not> Equals \<lparr>scheme = ''http'', host = h, port = p\<rparr>
              (Some \<lparr>scheme = ''http+tls'', host = h, port = p\<rparr>)"
  by (auto simp add: Equals_def)

lemma fold_update_map:
  "k \<le> length xs \<Longrightarrow> length ys = length xs \<Longrightarrow>
   fold (\<lambda>i other. other[i := f (xs ! i)]) [0..<k] ys = map f (take k xs) @ drop k ys"
proof (induction k)
  case 0
  then show ?case by simp
next
  case (Suc k)
  then show ?case
    by (simp add: take_Suc_conv_app_nth upd_conv_take_nth_drop)
qed

lemma fold_update_all:
  "fold (\<lambda>i other. other[i := f (xs ! i)]) [0..<length xs] (replicate (length xs) z) = map f xs"
  using fold_update_map [of "length xs" xs "replicate (length xs) z" f] by simp

lemma encodeURIs_nonempty:
  "ys \<noteq> [] \<Longrightarrow> encodeURIs (Some ys) = Some (map (\<lambda>u. Some (encodeURI u)) ys)"
  using fold_update_all [of "\<lambda>u. Some (encodeURI u)" ys None]
  by (simp add: encodeURIs_def len_def)

lemma decodeURIs_nonempty:
  "ys \<noteq> [] \<Longrightarrow> decodeURIs (Some ys) = Some (map decodeURI ys)"
  using fold_update_all [of decodeURI ys "\<lparr>scheme = '''', host = '''', port = 0\<rparr>"]
  by (simp add: decodeURIs_def len_def)

lemma encodeURIs_cases:
  "encodeURIs a =
     (case a of None \<Rightarrow> None | Some [] \<Rightarrow> None
      | Some (x # xs) \<Rightarrow> Some (map (\<lambda>u. Some (encodeURI u)) (x # xs)))"
proof (cases a)
  case None
  then show ?thesis by (simp add: encodeURIs_def len_def)
next
  case (Some ys)
  show ?thesis
  proof (cases ys)
    case Nil
    with Some show ?thesis by (simp add: encodeURIs_def len_def)
  next
    case (Cons x xs)
    then have "ys \<noteq> []" by simp
    from encodeURIs_nonempty [OF this] Some Cons show ?thesis by simp
  qed
qed

lemma decodeURIs_cases:
  "decodeURIs a =
     (case a of None \<Rightarrow> None | Some [] \<Rightarrow> None
      | Some (x # xs) \<Rightarrow> Some (map decodeURI (x # xs)))"
proof (cases a)
  case None
  then show ?thesis by (simp add: decodeURIs_def len_def)
next
  case (Some ys)
  show ?thesis
  proof (cases ys)
    case Nil
    with Some show ?thesis by (simp add: decodeURIs_def len_def)
  next
    case (Cons x xs)
    then have "ys \<noteq> []" by simp
    from decodeURIs_nonempty [OF this] Some Cons show ?thesis by simp
  qed
qed

text \<open>
  Claim C8. The batch codec works element by element and keeps the order: a non-empty
  sequence of descriptors encodes to the sequence of their envelopes, a non-empty
  sequence of envelopes decodes to the sequence of their descriptors. Encoding the empty
  sequence (or nil) gives nil, not an empty sequence, and decoding an empty or nil
  collection gives nil.
\<close>

theorem batch_codec_elementwise:
  "encodeURIs a =
     (case a of None \<Rightarrow> None | Some [] \<Rightarrow> None
      | Some (x # xs) \<Rightarrow> Some (map (\<lambda>u. Some (encodeURI u)) (x # xs)))
   \<and> decodeURIs b =
     (case b of None \<Rightarrow> None | Some [] \<Rightarrow> None
      | Some (y # ys) \<Rightarrow> Some (map decodeURI (y # ys)))
   \<and> encodeURIs (Some []) = None \<and> encodeURIs None = None
   \<and> decodeURIs (Some []) = None \<and> decodeURIs None = None"
  using encodeURIs_cases [of a] decodeURIs_cases [of b]
  by (simp add: encodeURIs_def decodeURIs_def len_def)

lemma HostPort_Default: "HostPort (Some DefaultURI) = ''localhost:10101''"
  by code_simp

text \<open>
  Claim C10. \<open>HostPort\<close> on a nil descriptor returns the empty string instead of failing;
  on a descriptor it returns the host, \<^verbatim>\<open>:\<close> and the port in decimal: a nonempty string
  \<open>ds\<close> of digits whose base-ten value is the port and which has no leading zero. For the
  default descriptor that is \<^verbatim>\<open>localhost:10101\<close>.
\<close>

theorem HostPort_total:
  "HostPort None = ''''
   \<and> (\<exists>ds. HostPort (Some u) = host u @ '':'' @ ds
          \<and> valid_port ds \<and> dec_val ds = unat (port u) \<and> (hd ds = CHR ''0'') = (ds = ''0''))
   \<and> HostPort (Some DefaultURI) = ''localhost:10101''"
proof -
  have "\<exists>ds. HostPort (Some u) = host u @ '':'' @ ds
          \<and> valid_port ds \<and> dec_val ds = unat (port u) \<and> (hd ds = CHR ''0'') = (ds = ''0'')"
    using itoa_decimal [of "unat (port u)"]
    by (intro exI [of _ "itoa (unat (port u))"]) (simp add: HostPort_def)
  then show ?thesis
    using HostPort_Default by (simp add: HostPort_def)
qed

subsection \<open>The matcher on the three patterns\<close>

lemma run_Cat_bind: "run (Cat a b) n st = bind a n (run b n) st"
  by (simp add: bind_def)

lemma concat_map_concat_map:
  "concat (map K (concat (map g xs))) = concat (map (\<lambda>x. concat (map K (g x))) xs)"
  by (induction xs) simp_all

lemma bind_Cat: "bind (Cat a b) n K st = bind a n (bind b n K) st"
  by (simp add: bind_def [abs_def] concat_map_concat_map)

lemma bind_Alt: "bind (Alt a b) n K st = bind a n K st @ bind b n K st"
  by (simp add: bind_def)

lemma bind_Opt: "bind (Opt a) n K st = bind a n K st @ K st"
  by (simp add: bind_def)

lemma bind_Cap:
  "bind (Cap k a) n K (s, cs) =
   bind a n (\<lambda>st'. K (fst st', (k, take (length s - length (fst st')) s) # snd st')) (s, cs)"
  by (simp add: bind_def comp_def)

lemma bind_Lit:
  "bind (Lit w) n K (s, cs) = (if take (length w) s = w then K (drop (length w) s, cs) else [])"
  by (simp add: bind_def)

lemma bind_Lit1:
  "bind (Lit [a]) n K (s, cs) = (if s \<noteq> [] \<and> hd s = a then K (tl s, cs) else [])"
  by (cases s) (auto simp add: bind_Lit)

lemma bind_Lit3:
  "bind (Lit [a, b, c]) n K (s, cs) = (if take 3 s = [a, b, c] then K (drop 3 s, cs) else [])"
  by (simp add: bind_Lit numeral_3_eq_3)

lemma bind_EndText: "bind EndText n K (s, cs) = (if s = [] then K (s, cs) else [])"
  by (simp add: bind_def)

lemma bind_BeginText: "bind BeginText n K (s, cs) = (if length s = n then K (s, cs) else [])"
  by (simp add: bind_def)

lemma run_Plus_Cls_Nil: "plus_iter (run (Cls C) n) ([], cs) = []"
  by (simp add: plus_iter.simps)

lemma run_Plus_Cls_Cons:
  "plus_iter (run (Cls C) n) (x # xs, cs) =
   (if in_class C x then plus_iter (run (Cls C) n) (xs, cs) @ [(xs, cs)] else [])"
  by (simp add: plus_iter.simps [of _ "(x # xs, cs)"])

lemma bind_Plus_Cls:
  assumes "\<And>x xs. in_class C x \<Longrightarrow> K (x # xs, cs) = []"
  shows "bind (Plus (Cls C)) n K (s, cs) =
         (if takeWhile (in_class C) s = [] then [] else K (dropWhile (in_class C) s, cs))"
proof (induction s)
  case Nil
  show ?case by (simp add: bind_def run_Plus_Cls_Nil)
next
  case (Cons x xs)
  show ?case
  proof (cases "in_class C x")
    case False
    then show ?thesis by (simp add: bind_def run_Plus_Cls_Cons)
  next
    case True
    have step: "bind (Plus (Cls C)) n K (x # xs, cs) = bind (Plus (Cls C)) n K (xs, cs) @ K (xs, cs)"
      using True by (simp add: bind_def run_Plus_Cls_Cons)
    show ?thesis
    proof (cases xs)
      case Nil
      then show ?thesis using True step by (simp add: bind_def run_Plus_Cls_Nil)
    next
      case (Cons y ys)
      then show ?thesis using True step Cons.IH assms [of y ys] by auto
    qed
  qed
qed

lemma scheme_not_colon [simp]: "in_class schemeClass x \<Longrightarrow> (x = CHR '':'') = False"
  by (auto simp: in_class_def schemeClass_def)
lemma host_not_colon [simp]: "in_class hostClass x \<Longrightarrow> (x = CHR '':'') = False"
  by (auto simp: in_class_def hostClass_def)
lemma host_not_bracket [simp]: "in_class hostClass x \<Longrightarrow> (x = CHR ''['') = False"
  by (auto simp: in_class_def hostClass_def)
lemma hex_not_bracket [simp]: "in_class hexClass x \<Longrightarrow> (x = CHR '']'') = False"
  by (auto simp: in_class_def hexClass_def)

lemmas bind_simps = bind_Cat bind_Alt bind_Opt bind_Cap bind_Lit1 bind_Lit3 bind_EndText bind_BeginText bind_Plus_Cls


lemma length_takeWhile_dropWhile: "length (takeWhile P s) + length (dropWhile P s) = length s"
  by (induction s) auto

lemma take_minus_dropWhile [simp]: "take (length s - length (dropWhile P s)) s = takeWhile P s"
proof -
  have "length s - length (dropWhile P s) = length (takeWhile P s)"
    using length_takeWhile_dropWhile [of P s] by arith
  then show ?thesis by (simp add: takeWhile_eq_take [symmetric])
qed

lemma take_Suc_minus_dropWhile [simp]:
  "take (Suc (length s) - length (dropWhile P s)) (x # s) = x # takeWhile P s"
proof -
  have "Suc (length s) - length (dropWhile P s) = Suc (length (takeWhile P s))"
    using length_takeWhile_dropWhile [of P s] by arith
  then show ?thesis by (simp add: takeWhile_eq_take [symmetric])
qed

lemma takeWhile_all: "(takeWhile P s \<noteq> [] \<and> dropWhile P s = []) = (s \<noteq> [] \<and> list_all P s)"
  by (cases s) (auto simp: list_all_iff dropWhile_eq_Nil_conv)

lemma run_EndText: "run EndText n (s, cs) = (if s = [] then [(s, cs)] else [])"
  by simp

lemma run_tail_Nil: "run (Cat portGroup EndText) n ([], cs) = [([], cs)]"
  by (simp add: run_Cat_bind portGroup_def bind_simps run_EndText del: run.simps)

lemma run_tail_Cons:
  "run (Cat portGroup EndText) n (x # xs, cs) =
     (if x = CHR '':'' \<and> xs \<noteq> [] \<and> list_all (in_class digitClass) xs
      then [([], (4, x # xs) # (5, xs) # cs)] else [])"
  using takeWhile_all [of "in_class digitClass" xs]
  by (auto simp add: run_Cat_bind portGroup_def bind_simps run_EndText takeWhile_eq_all_conv list_all_iff simp del: run.simps)


lemma take_bracket:
  assumes "dropWhile P xs \<noteq> []" and "hd (dropWhile P xs) = c"
  shows "take (Suc (length xs) - (length (dropWhile P xs) - Suc 0)) (x # xs) = x # takeWhile P xs @ [c]"
proof -
  obtain r where r: "dropWhile P xs = c # r"
    using assms by (cases "dropWhile P xs") auto
  have xs: "xs = takeWhile P xs @ c # r"
    using takeWhile_dropWhile_id [of P xs] r by simp
  have "length xs = length (takeWhile P xs) + Suc (length r)"
    using arg_cong [OF xs, of length] by simp
  then have "Suc (length xs) - (length (dropWhile P xs) - Suc 0) = Suc (Suc (length (takeWhile P xs)))"
    using r by simp
  moreover have "take (Suc (Suc (length (takeWhile P xs)))) (x # takeWhile P xs @ c # r) = x # takeWhile P xs @ [c]"
    by simp
  ultimately show ?thesis using xs by metis
qed

lemmas run_tail = run_tail_Nil run_tail_Cons

lemma run_htail_Nil: "run (Cat hostGroup (Cat portGroup EndText)) n ([], cs) = [([], cs)]"
  unfolding run_Cat_bind [of hostGroup]
  by (simp add: hostGroup_def bind_simps run_tail del: run.simps)

lemma run_htail_Cons:
  "run (Cat hostGroup (Cat portGroup EndText)) n (x # xs, cs) =
     (if in_class hostClass x then
        run (Cat portGroup EndText) n
          (dropWhile (in_class hostClass) xs, (3, x # takeWhile (in_class hostClass) xs) # cs)
      else if x = CHR ''['' then
        (if takeWhile (in_class hexClass) xs \<noteq> [] \<and> dropWhile (in_class hexClass) xs \<noteq> []
            \<and> hd (dropWhile (in_class hexClass) xs) = CHR '']''
         then run (Cat portGroup EndText) n
                (tl (dropWhile (in_class hexClass) xs),
                 (3, x # takeWhile (in_class hexClass) xs @ '']'') # cs)
         else [])
      else run (Cat portGroup EndText) n (x # xs, cs))"
  unfolding run_Cat_bind [of hostGroup]
  by (simp add: hostGroup_def bind_simps run_tail take_bracket del: run.simps)



lemma take_scheme_capture:
  assumes "take 3 (dropWhile P s) = [a, b, c]"
  shows "take (length s - (length (dropWhile P s) - 3)) s = takeWhile P s @ [a, b, c]"
proof -
  have len: "3 \<le> length (dropWhile P s)"
    using arg_cong [OF assms, of length] by simp
  have "length s - (length (dropWhile P s) - 3) = length (takeWhile P s) + 3"
    using length_takeWhile_dropWhile [of P s] len by arith
  moreover have "take (length w + 3) (w @ d) = w @ take 3 d" for w d :: "'a list"
    by simp
  from this [of "takeWhile P s" "dropWhile P s"]
  have "take (length (takeWhile P s) + 3) s = takeWhile P s @ take 3 (dropWhile P s)"
    by simp
  ultimately show ?thesis using assms by simp
qed

lemma run_saddr:
  "run (Cat schemeGroup (Cat hostGroup (Cat portGroup EndText))) n (s, cs) =
     (if takeWhile (in_class schemeClass) s \<noteq> [] \<and> take 3 (dropWhile (in_class schemeClass) s) = ''://''
      then run (Cat hostGroup (Cat portGroup EndText)) n
             (drop 3 (dropWhile (in_class schemeClass) s),
              (1, takeWhile (in_class schemeClass) s @ ''://'') # (2, takeWhile (in_class schemeClass) s) # cs)
      else [])
     @ run (Cat hostGroup (Cat portGroup EndText)) n (s, cs)"
  unfolding run_Cat_bind [of schemeGroup]
  by (simp add: schemeGroup_def bind_simps take_scheme_capture del: run.simps)

lemma in_class_scheme: "in_class schemeClass c = scheme_char c"
  using of_char_eq_iff [where ?'a = nat, of c "CHR ''+''"]
  by (auto simp add: in_class_def schemeClass_def scheme_char_def is_lower_def)

lemma in_class_host: "in_class hostClass c = host_char c"
  using of_char_eq_iff [where ?'a = nat, of c "CHR ''.''"] of_char_eq_iff [where ?'a = nat, of c "CHR ''-''"]
  by (auto simp add: in_class_def hostClass_def host_char_def is_lower_def is_digit_def)

lemma in_class_hex: "in_class hexClass c = hex_colon_char c"
  using of_char_eq_iff [where ?'a = nat, of c "CHR '':''"]
  by (auto simp add: in_class_def hexClass_def hex_colon_char_def is_digit_def)

lemma bracketed_host_iff:
  "bracketed_host h = (\<exists>x. x \<noteq> [] \<and> list_all hex_colon_char x \<and> h = CHR ''['' # x @ '']'')"
proof
  assume b: "bracketed_host h"
  then obtain c t where h: "h = c # t" by (cases h) (auto simp: bracketed_host_def)
  with b have t: "t \<noteq> []" "c = CHR ''[''" "last t = CHR '']''" "list_all hex_colon_char (butlast t)" "2 \<le> length t"
    by (auto simp: bracketed_host_def split: if_splits)
  then have "t = butlast t @ '']''" using append_butlast_last_id [of t] by simp
  moreover have "butlast t \<noteq> []" using t(5) by (cases t rule: rev_cases) auto
  ultimately show "\<exists>x. x \<noteq> [] \<and> list_all hex_colon_char x \<and> h = CHR ''['' # x @ '']''"
    using h t by metis
next
  assume "\<exists>x. x \<noteq> [] \<and> list_all hex_colon_char x \<and> h = CHR ''['' # x @ '']''"
  then obtain x where "x \<noteq> []" "list_all hex_colon_char x" "h = CHR ''['' # x @ '']''" by blast
  then show "bracketed_host h"
    by (cases x) (auto simp: bracketed_host_def butlast_append)
qed

declare run.simps [simp del]

lemma tail_match:
  "pred_option valid_port po \<Longrightarrow>
   run (Cat portGroup EndText) n (port_part po, cs) = [([], port_caps po @ cs)]"
  by (cases po) (simp_all add: port_part_def port_caps_def run_tail valid_port_def in_class_digit [abs_def])

lemma takeWhile_append_stop:
  "list_all P xs \<Longrightarrow> r = [] \<or> \<not> P (hd r) \<Longrightarrow> takeWhile P (xs @ r) = xs"
  by (induction xs) (auto simp: takeWhile_eq_Nil_iff)

lemma dropWhile_append_stop:
  "list_all P xs \<Longrightarrow> r = [] \<or> \<not> P (hd r) \<Longrightarrow> dropWhile P (xs @ r) = r"
  by (induction xs) (auto simp: dropWhile_eq_self_iff)

lemma port_part_stop_host: "port_part po = [] \<or> \<not> in_class hostClass (hd (port_part po))"
  by (cases po) (auto simp: port_part_def in_class_def hostClass_def)

lemma port_part_head: "port_part po = [] \<or> hd (port_part po) = CHR '':''"
  by (cases po) (auto simp: port_part_def)

lemma htail_match:
  assumes "pred_option valid_host ho" and "pred_option valid_port po"
  shows "run (Cat hostGroup (Cat portGroup EndText)) n (host_part ho @ port_part po, cs)
         = [([], port_caps po @ host_caps ho @ cs)]"
proof (cases ho)
  case None
  show ?thesis
  proof (cases po)
    case None
    then show ?thesis
      using \<open>ho = None\<close>
      by (simp add: host_part_def host_caps_def port_part_def port_caps_def run_htail_Nil)
  next
    case (Some p)
    then show ?thesis
      using \<open>ho = None\<close> tail_match [OF assms(2), of n cs]
      by (simp add: host_part_def host_caps_def port_part_def run_htail_Cons in_class_def hostClass_def)
  qed
next
  case (Some h)
  with assms(1) have vh: "bare_host h \<or> bracketed_host h" by (simp add: valid_host_def)
  show ?thesis
  proof (cases "bare_host h")
    case True
    then obtain x xs where h: "h = x # xs" and x: "in_class hostClass x" and xs: "list_all (in_class hostClass) xs"
      by (cases h) (auto simp: bare_host_def in_class_host [abs_def])
    have tw: "takeWhile (in_class hostClass) (xs @ port_part po) = xs"
      and dw: "dropWhile (in_class hostClass) (xs @ port_part po) = port_part po"
      using takeWhile_append_stop [OF xs port_part_stop_host] dropWhile_append_stop [OF xs port_part_stop_host]
      by auto
    show ?thesis
      using Some h x tw dw tail_match [OF assms(2), of n "(3, h) # cs"]
      by (simp add: host_part_def host_caps_def run_htail_Cons)
  next
    case False
    with vh have "bracketed_host h" by simp
    then obtain y where y: "y \<noteq> []" "list_all (in_class hexClass) y" "h = CHR ''['' # y @ '']''"
      by (auto simp: bracketed_host_iff in_class_hex [abs_def])
    have stop: "'']'' @ port_part po = [] \<or> \<not> in_class hexClass (hd ('']'' @ port_part po))"
      by (simp add: in_class_def hexClass_def)
    have tw: "takeWhile (in_class hexClass) (y @ '']'' @ port_part po) = y"
      and dw: "dropWhile (in_class hexClass) (y @ '']'' @ port_part po) = '']'' @ port_part po"
      using takeWhile_append_stop [OF y(2) stop] dropWhile_append_stop [OF y(2) stop]
      by auto
    have nb: "\<not> in_class hostClass CHR ''[''"
      by (simp add: in_class_def hostClass_def)
    show ?thesis
      using Some y tw dw nb tail_match [OF assms(2), of n "(3, h) # cs"]
      by (simp add: host_part_def host_caps_def run_htail_Cons)
  qed
qed


lemma no_slash_host_port:
  assumes "pred_option valid_host ho" and "pred_option valid_port po"
  shows "CHR ''/'' \<notin> set (host_part ho @ port_part po)"
proof -
  have "CHR ''/'' \<notin> set (host_part ho)"
  proof (cases ho)
    case None
    then show ?thesis by (simp add: host_part_def)
  next
    case (Some h)
    with assms(1) have "bare_host h \<or> bracketed_host h" by (simp add: valid_host_def)
    then show ?thesis
    proof
      assume "bare_host h"
      then have "\<forall>c\<in>set h. host_char c" by (simp add: bare_host_def list_all_iff)
      moreover have "\<not> host_char CHR ''/''"
        by (simp add: host_char_def is_lower_def is_digit_def)
      ultimately show ?thesis using Some by (auto simp: host_part_def)
    next
      assume "bracketed_host h"
      then obtain y where y: "list_all hex_colon_char y" "h = CHR ''['' # y @ '']''"
        by (auto simp: bracketed_host_iff)
      then have "\<forall>c\<in>set y. hex_colon_char c" by (simp add: list_all_iff)
      moreover have "\<not> hex_colon_char CHR ''/''"
        by (simp add: hex_colon_char_def is_digit_def)
      ultimately show ?thesis using Some y by (auto simp: host_part_def)
    qed
  qed
  moreover have "CHR ''/'' \<notin> set (port_part po)"
  proof (cases po)
    case None
    then show ?thesis by (simp add: port_part_def)
  next
    case (Some p)
    with assms(2) have "\<forall>c\<in>set p. is_digit c" by (simp add: valid_port_def list_all_iff)
    moreover have "\<not> is_digit CHR ''/''" by (simp add: is_digit_def)
    ultimately show ?thesis using Some by (auto simp: port_part_def)
  qed
  ultimately show ?thesis by simp
qed

lemma scheme_sep_has_slash:
  assumes "take 3 (dropWhile P s) = ''://''"
  shows "CHR ''/'' \<in> set s"
proof -
  have "CHR ''/'' \<in> set (take 3 (dropWhile P s))" using assms by simp
  then have "CHR ''/'' \<in> set (dropWhile P s)" by (rule in_set_takeD)
  then show ?thesis by (rule set_dropWhileD)
qed

lemma saddr_match:
  assumes "pred_option valid_scheme so" and "pred_option valid_host ho" and "pred_option valid_port po"
  shows "\<exists>rest. run (Cat schemeGroup (Cat hostGroup (Cat portGroup EndText))) n (address_of so ho po, cs)
           = ([], port_caps po @ host_caps ho @ scheme_caps so @ cs) # rest"
proof (cases so)
  case None
  have "\<not> (take 3 (dropWhile (in_class schemeClass) (host_part ho @ port_part po)) = ''://'')"
    using scheme_sep_has_slash no_slash_host_port [OF assms(2,3)] by blast
  then show ?thesis
    using None htail_match [OF assms(2,3), of n cs]
    by (simp add: run_saddr address_of_def scheme_part_def scheme_caps_def)
next
  case (Some s)
  with assms(1) have s: "s \<noteq> []" "list_all (in_class schemeClass) s"
    by (simp_all add: valid_scheme_def in_class_scheme [abs_def])
  let ?r = "host_part ho @ port_part po"
  have stop: "''://'' @ ?r = [] \<or> \<not> in_class schemeClass (hd (''://'' @ ?r))"
    by (simp add: in_class_def schemeClass_def)
  have tw: "takeWhile (in_class schemeClass) (s @ ''://'' @ ?r) = s"
    and dw: "dropWhile (in_class schemeClass) (s @ ''://'' @ ?r) = ''://'' @ ?r"
    using takeWhile_append_stop [OF s(2) stop] dropWhile_append_stop [OF s(2) stop] by auto
  show ?thesis
    using Some s(1) tw dw htail_match [OF assms(2,3), of n "(1, s @ ''://'') # (2, s) # cs"]
    by (simp add: run_saddr address_of_def scheme_part_def scheme_caps_def)
qed

lemma run_address:
  "run addressRegexp n (s, cs) =
     (if length s = n then run (Cat schemeGroup (Cat hostGroup (Cat portGroup EndText))) n (s, cs) else [])"
  unfolding addressRegexp_def run_Cat_bind [of BeginText] by (simp add: bind_BeginText)

lemma search_short:
  assumes "\<And>s. length s \<noteq> n \<Longrightarrow> run r n (s, []) = []"
  shows "length s < n \<Longrightarrow> search r n s = None"
  by (induction s) (simp_all add: assms)

lemma search_whole:
  assumes "\<And>s'. length s' \<noteq> length s \<Longrightarrow> run r (length s) (s', []) = []"
  shows "search r (length s) s =
           (case run r (length s) (s, []) of [] \<Rightarrow> None | st # _ \<Rightarrow> Some (s, st))"
proof (cases s)
  case Nil
  then show ?thesis by (simp split: list.split)
next
  case (Cons x xs)
  have "search r (length s) xs = None"
    using search_short [of "length s" r xs] assms Cons by simp
  then show ?thesis using Cons by (simp split: list.split)
qed

lemma num_subexp_address: "num_subexp addressRegexp = 5"
  by (simp add: addressRegexp_def schemeGroup_def hostGroup_def portGroup_def)

lemma upt_1_6: "[Suc 0..<6] = [Suc 0, 2, 3, 4, 5]"
  by (simp add: upt_rec)

lemma FindStringSubmatch_address:
  "FindStringSubmatch addressRegexp a =
     (case run (Cat schemeGroup (Cat hostGroup (Cat portGroup EndText))) (length a) (a, []) of
        [] \<Rightarrow> None
      | (rest, cs) # _ \<Rightarrow>
          Some (take (length a - length rest) a #
                map (\<lambda>i. case map_of cs i of None \<Rightarrow> [] | Some v \<Rightarrow> v) [1, 2, 3, 4, 5]))"
proof -
  have "search addressRegexp (length a) a =
          (case run addressRegexp (length a) (a, []) of [] \<Rightarrow> None | st # _ \<Rightarrow> Some (a, st))"
    by (rule search_whole) (simp add: run_address)
  then show ?thesis
    by (simp add: FindStringSubmatch_def num_subexp_address upt_1_6 run_address split: list.split)
qed

lemma address_match:
  assumes "pred_option valid_scheme so" and "pred_option valid_host ho" and "pred_option valid_port po"
  shows "FindStringSubmatch addressRegexp (address_of so ho po) =
           Some [address_of so ho po, scheme_part so, (case so of None \<Rightarrow> [] | Some s \<Rightarrow> s),
                 host_part ho, port_part po, (case po of None \<Rightarrow> [] | Some p \<Rightarrow> p)]"
proof -
  obtain rest where
    "run (Cat schemeGroup (Cat hostGroup (Cat portGroup EndText))) (length (address_of so ho po))
       (address_of so ho po, []) = ([], port_caps po @ host_caps ho @ scheme_caps so @ []) # rest"
    using saddr_match [OF assms] by blast
  then show ?thesis
    by (cases so; cases ho; cases po)
       (simp_all add: FindStringSubmatch_address port_caps_def host_caps_def scheme_caps_def
          scheme_part_def host_part_def port_part_def)
qed


lemma tail_sound:
  assumes "run (Cat portGroup EndText) n (s, cs) \<noteq> []"
  shows "\<exists>po. pred_option valid_port po \<and> s = port_part po"
proof (cases s)
  case Nil
  then have "pred_option valid_port None \<and> s = port_part None" by (simp add: port_part_def)
  then show ?thesis by blast
next
  case (Cons x xs)
  with assms have "x = CHR '':''" "xs \<noteq> []" "list_all (in_class digitClass) xs"
    by (auto simp: run_tail_Cons split: if_splits)
  then have "pred_option valid_port (Some xs) \<and> s = port_part (Some xs)"
    using Cons by (simp add: port_part_def valid_port_def in_class_digit [abs_def])
  then show ?thesis by blast
qed

lemma htail_sound:
  assumes "run (Cat hostGroup (Cat portGroup EndText)) n (s, cs) \<noteq> []"
  shows "\<exists>ho po. pred_option valid_host ho \<and> pred_option valid_port po \<and> s = host_part ho @ port_part po"
proof (cases s)
  case Nil
  then have "pred_option valid_host None \<and> pred_option valid_port None \<and> s = host_part None @ port_part None"
    by (simp add: port_part_def host_part_def)
  then show ?thesis by blast
next
  case (Cons x xs)
  let ?tw = "takeWhile (in_class hostClass) xs" and ?dw = "dropWhile (in_class hostClass) xs"
  let ?tx = "takeWhile (in_class hexClass) xs" and ?dx = "dropWhile (in_class hexClass) xs"
  consider (bare) "in_class hostClass x"
    | (bracket) "\<not> in_class hostClass x" "x = CHR ''[''"
    | (none) "\<not> in_class hostClass x" "x \<noteq> CHR ''[''" by blast
  then show ?thesis
  proof cases
    case bare
    with assms Cons have "run (Cat portGroup EndText) n (?dw, (3, x # ?tw) # cs) \<noteq> []"
      by (simp add: run_htail_Cons)
    then obtain po where po: "pred_option valid_port po" "?dw = port_part po"
      using tail_sound by blast
    have "list_all host_char (x # ?tw)"
      using bare by (auto simp: list_all_iff in_class_host dest: set_takeWhileD)
    then have "pred_option valid_host (Some (x # ?tw))"
      by (simp add: valid_host_def bare_host_def)
    moreover have "s = host_part (Some (x # ?tw)) @ port_part po"
      using Cons po(2) [symmetric] by (simp add: host_part_def)
    ultimately show ?thesis using po(1) by blast
  next
    case bracket
    with assms Cons have c: "?tx \<noteq> []" "?dx \<noteq> []" "hd ?dx = CHR '']''"
      and r: "run (Cat portGroup EndText) n (tl ?dx, (3, x # ?tx @ '']'') # cs) \<noteq> []"
      by (auto simp: run_htail_Cons split: if_splits)
    from r obtain po where po: "pred_option valid_port po" "tl ?dx = port_part po"
      using tail_sound by blast
    have "list_all hex_colon_char ?tx"
      by (auto simp: list_all_iff in_class_hex dest: set_takeWhileD)
    with c(1) have "bracketed_host (CHR ''['' # ?tx @ '']'')"
      unfolding bracketed_host_iff by blast
    then have "pred_option valid_host (Some (CHR ''['' # ?tx @ '']''))"
      by (simp add: valid_host_def)
    moreover have "?dx = CHR '']'' # tl ?dx" using c(2,3) by (cases ?dx) auto
    then have "xs = ?tx @ CHR '']'' # port_part po"
      using takeWhile_dropWhile_id [of "in_class hexClass" xs] po(2) by metis
    then have "s = host_part (Some (CHR ''['' # ?tx @ '']'')) @ port_part po"
      using Cons bracket(2) by (simp add: host_part_def)
    ultimately show ?thesis using po(1) by blast
  next
    case none
    with assms Cons have "run (Cat portGroup EndText) n (s, cs) \<noteq> []"
      by (simp add: run_htail_Cons)
    then obtain po where "pred_option valid_port po" "s = port_part po"
      using tail_sound by blast
    then have "pred_option valid_host None \<and> pred_option valid_port po \<and> s = host_part None @ port_part po"
      by (simp add: host_part_def)
    then show ?thesis by blast
  qed
qed

lemma saddr_sound:
  assumes "run (Cat schemeGroup (Cat hostGroup (Cat portGroup EndText))) n (s, cs) \<noteq> []"
  shows "matches_grammar s"
proof -
  let ?tw = "takeWhile (in_class schemeClass) s" and ?dw = "dropWhile (in_class schemeClass) s"
  consider (with_scheme) "?tw \<noteq> []" "take 3 ?dw = ''://''"
      "run (Cat hostGroup (Cat portGroup EndText)) n (drop 3 ?dw, (1, ?tw @ ''://'') # (2, ?tw) # cs) \<noteq> []"
    | (without) "run (Cat hostGroup (Cat portGroup EndText)) n (s, cs) \<noteq> []"
    using assms by (auto simp: run_saddr split: if_splits)
  then show ?thesis
  proof cases
    case with_scheme
    from with_scheme(3) obtain ho po where hp:
      "pred_option valid_host ho" "pred_option valid_port po" "drop 3 ?dw = host_part ho @ port_part po"
      using htail_sound by blast
    have "list_all scheme_char ?tw"
      by (auto simp: list_all_iff in_class_scheme dest: set_takeWhileD)
    with with_scheme(1) have "pred_option valid_scheme (Some ?tw)"
      by (simp add: valid_scheme_def)
    moreover have "?dw = ''://'' @ drop 3 ?dw"
      using append_take_drop_id [of 3 ?dw] with_scheme(2) by simp
    then have "s = ?tw @ ''://'' @ host_part ho @ port_part po"
      using takeWhile_dropWhile_id [of "in_class schemeClass" s] hp(3) by metis
    then have "s = address_of (Some ?tw) ho po"
      by (simp add: address_of_def scheme_part_def)
    ultimately show ?thesis unfolding matches_grammar_def using hp(1,2) by blast
  next
    case without
    then obtain ho po where
      "pred_option valid_host ho" "pred_option valid_port po" "s = host_part ho @ port_part po"
      using htail_sound by blast
    then have "pred_option valid_scheme None \<and> pred_option valid_host ho \<and> pred_option valid_port po
               \<and> s = address_of None ho po"
      by (simp add: address_of_def scheme_part_def)
    then show ?thesis unfolding matches_grammar_def by blast
  qed
qed

lemma address_match_iff:
  "(FindStringSubmatch addressRegexp a = None) = (\<not> matches_grammar a)"
proof
  assume "FindStringSubmatch addressRegexp a = None"
  show "\<not> matches_grammar a"
  proof
    assume "matches_grammar a"
    then obtain so ho po where "pred_option valid_scheme so" "pred_option valid_host ho"
      "pred_option valid_port po" "a = address_of so ho po"
      unfolding matches_grammar_def by blast
    then have "FindStringSubmatch addressRegexp a \<noteq> None"
      using address_match [of so ho po] by simp
    with \<open>FindStringSubmatch addressRegexp a = None\<close> show False by simp
  qed
next
  assume ng: "\<not> matches_grammar a"
  have "run (Cat schemeGroup (Cat hostGroup (Cat portGroup EndText))) (length a) (a, []) = []"
    using saddr_sound ng by blast
  then show "FindStringSubmatch addressRegexp a = None"
    by (simp add: FindStringSubmatch_address)
qed

subsection \<open>Parsing an address\<close>

lemma dec_from_Nil [simp]: "dec_from n [] = n"
  by (simp add: dec_from_def)

lemma dec_from_Cons [simp]: "dec_from n (d # ds) = dec_from (n * 10 + digit_val d) ds"
  by (simp add: dec_from_def)

lemma dec_val_dec_from: "dec_val ds = dec_from 0 ds"
  by (simp add: dec_val_def dec_from_def)

lemma dec_from_ge: "n \<le> dec_from n ds"
proof (induction ds arbitrary: n)
  case Nil
  show ?case by simp
next
  case (Cons d ds)
  have "n \<le> n * 10 + digit_val d" by simp
  also have "\<dots> \<le> dec_from (n * 10 + digit_val d) ds" by (rule Cons.IH)
  finally show ?case by simp
qed

lemma ParseUint_loop_digits:
  "list_all is_digit ds \<Longrightarrow> n \<le> M \<Longrightarrow>
   ParseUint_loop (M div 10 + 1) M n ds =
     (if dec_from n ds \<le> M then Inr (dec_from n ds) else Inl ErrRange)"
proof (induction ds arbitrary: n)
  case Nil
  then show ?case by simp
next
  case (Cons d ds)
  let ?n' = "n * 10 + digit_val d"
  have d: "is_digit d" and ds: "list_all is_digit ds" using Cons.prems(1) by simp_all
  show ?case
  proof (cases "?n' \<le> M")
    case True
    then have "\<not> n \<ge> M div 10 + 1" by arith
    then show ?thesis using True d Cons.IH [OF ds True] by simp
  next
    case False
    then have "\<not> dec_from ?n' ds \<le> M" using dec_from_ge [of ?n' ds] by arith
    then show ?thesis using False d by simp
  qed
qed

lemma digit_not_sign: "is_digit c \<Longrightarrow> c \<noteq> CHR ''+'' \<and> c \<noteq> CHR ''-''"
  by (auto simp: is_digit_def)

lemma Atoi_digits:
  assumes "valid_port p"
  shows "Atoi p = (if dec_val p < 2 ^ 63 then Inr (int (dec_val p)) else Inl ErrRange)"
proof -
  from assms obtain d ds where p: "p = d # ds" and d: "is_digit d" and all: "list_all is_digit p"
    by (cases p) (auto simp: valid_port_def)
  have loop: "ParseUint_loop ((2 ^ 64 - 1) div 10 + 1) (2 ^ 64 - 1) 0 p =
          (if dec_from 0 p \<le> 2 ^ 64 - 1 then Inr (dec_from 0 p) else Inl ErrRange)"
    by (rule ParseUint_loop_digits [OF all]) simp
  show ?thesis
    using digit_not_sign [OF d] loop p
    by (auto simp add: Atoi_def ParseInt_def ParseUint_def intSize_def Let_def dec_val_dec_from
          simp del: dec_from_Cons ParseUint_loop.simps)
qed

lemma parseAddress_address_of:
  assumes "pred_option valid_scheme so" and "pred_option valid_host ho" and "pred_option valid_port po"
  shows "parseAddress (address_of so ho po) =
     (case po of
        None \<Rightarrow> Inr \<lparr>scheme = (case so of None \<Rightarrow> ''http'' | Some s \<Rightarrow> s),
                     host = (case ho of None \<Rightarrow> ''localhost'' | Some h \<Rightarrow> h), port = 10101\<rparr>
      | Some p \<Rightarrow>
          if dec_val p < 2 ^ 63
          then Inr \<lparr>scheme = (case so of None \<Rightarrow> ''http'' | Some s \<Rightarrow> s),
                    host = (case ho of None \<Rightarrow> ''localhost'' | Some h \<Rightarrow> h),
                    port = of_nat (dec_val p)\<rparr>
          else Inl (errors_New ''converting port string to int''))"
proof -
  have so: "\<And>s. so = Some s \<Longrightarrow> s \<noteq> []" using assms(1) by (auto simp: valid_scheme_def)
  have ho: "\<And>h. ho = Some h \<Longrightarrow> h \<noteq> []" using assms(2)
    by (auto simp: valid_host_def bare_host_def bracketed_host_def)
  have po: "\<And>p. po = Some p \<Longrightarrow> p \<noteq> [] \<and> Atoi p = (if dec_val p < 2 ^ 63 then Inr (int (dec_val p)) else Inl ErrRange)"
    using assms(3) Atoi_digits by (auto simp: valid_port_def)
  show ?thesis
    unfolding parseAddress_def address_match [OF assms]
    using so ho po
    by (cases so; cases ho; cases po) (simp_all add: Let_def host_part_def port_part_def)
qed

lemma run_schemeRegexp:
  "run schemeRegexp n (s, cs) =
     (if length s = n \<and> s \<noteq> [] \<and> list_all (in_class schemeClass) s then [([], cs)] else [])"
  unfolding schemeRegexp_def run_Cat_bind [of BeginText]
  using takeWhile_all [of "in_class schemeClass" s]
  by (auto simp add: bind_simps run_Cat_bind run_EndText)

lemma run_hostRegexp:
  "run hostRegexp n (s, cs) =
     (if length s = n \<and> s \<noteq> [] \<and> list_all (in_class hostClass) s then [([], cs)] else [])
     @ (if length s = n \<and> s \<noteq> [] \<and> hd s = CHR ''['' \<and> takeWhile (in_class hexClass) (tl s) \<noteq> []
           \<and> dropWhile (in_class hexClass) (tl s) \<noteq> []
           \<and> hd (dropWhile (in_class hexClass) (tl s)) = CHR '']''
           \<and> tl (dropWhile (in_class hexClass) (tl s)) = [] then [([], cs)] else [])"
  unfolding hostRegexp_def run.simps(4) run_Cat_bind [of BeginText]
  using takeWhile_all [of "in_class hostClass" s]
  by (auto simp add: bind_simps run_Cat_bind run_EndText)


lemma FindStringSubmatch_anchored:
  assumes "\<And>s'. length s' \<noteq> length s \<Longrightarrow> run r (length s) (s', []) = []"
  shows "(FindStringSubmatch r s = None) = (run r (length s) (s, []) = [])"
  using search_whole [of s r, OF assms]
  by (simp add: FindStringSubmatch_def split: list.split option.split)

lemma FindStringSubmatch_scheme: "(FindStringSubmatch schemeRegexp s = None) = (\<not> valid_scheme s)"
proof -
  have "(FindStringSubmatch schemeRegexp s = None) = (run schemeRegexp (length s) (s, []) = [])"
    by (rule FindStringSubmatch_anchored) (simp add: run_schemeRegexp)
  then show ?thesis
    by (simp add: run_schemeRegexp valid_scheme_def in_class_scheme [abs_def])
qed

lemma bracket_shape:
  "(s \<noteq> [] \<and> hd s = CHR ''['' \<and> takeWhile (in_class hexClass) (tl s) \<noteq> []
      \<and> dropWhile (in_class hexClass) (tl s) \<noteq> []
      \<and> hd (dropWhile (in_class hexClass) (tl s)) = CHR '']''
      \<and> tl (dropWhile (in_class hexClass) (tl s)) = [])
   = bracketed_host s"
proof
  let ?tw = "takeWhile (in_class hexClass) (tl s)" and ?dw = "dropWhile (in_class hexClass) (tl s)"
  assume a: "s \<noteq> [] \<and> hd s = CHR ''['' \<and> ?tw \<noteq> [] \<and> ?dw \<noteq> [] \<and> hd ?dw = CHR '']'' \<and> tl ?dw = []"
  then have "?dw = '']''" by (cases ?dw) auto
  then have "tl s = ?tw @ '']''" using takeWhile_dropWhile_id [of "in_class hexClass" "tl s"] by metis
  then have "s = CHR ''['' # ?tw @ '']''" using a by (cases s) auto
  moreover have "list_all hex_colon_char ?tw"
    by (auto simp: list_all_iff in_class_hex dest: set_takeWhileD)
  ultimately show "bracketed_host s" unfolding bracketed_host_iff using a by blast
next
  assume "bracketed_host s"
  then obtain y where y: "y \<noteq> []" "list_all (in_class hexClass) y" "s = CHR ''['' # y @ '']''"
    by (auto simp: bracketed_host_iff in_class_hex [abs_def])
  have stop: "'']'' = [] \<or> \<not> in_class hexClass (hd '']'')"
    by (simp add: in_class_def hexClass_def)
  have "takeWhile (in_class hexClass) (y @ '']'') = y" "dropWhile (in_class hexClass) (y @ '']'') = '']''"
    using takeWhile_append_stop [OF y(2) stop] dropWhile_append_stop [OF y(2) stop] by auto
  then show "s \<noteq> [] \<and> hd s = CHR ''['' \<and> takeWhile (in_class hexClass) (tl s) \<noteq> []
      \<and> dropWhile (in_class hexClass) (tl s) \<noteq> []
      \<and> hd (dropWhile (in_class hexClass) (tl s)) = CHR '']''
      \<and> tl (dropWhile (in_class hexClass) (tl s)) = []"
    using y(1,3) by simp
qed

lemma FindStringSubmatch_host: "(FindStringSubmatch hostRegexp s = None) = (\<not> valid_host s)"
proof -
  have "(FindStringSubmatch hostRegexp s = None) = (run hostRegexp (length s) (s, []) = [])"
    by (rule FindStringSubmatch_anchored) (simp add: run_hostRegexp)
  then show ?thesis
    using bracket_shape [of s]
    by (auto simp add: run_hostRegexp valid_host_def bare_host_def in_class_host [abs_def])
qed

text \<open>
  Claim C4. \<open>SetScheme\<close> succeeds exactly when its argument is one or more characters
  among the lowercase letters and \<^verbatim>\<open>+\<close>; \<open>SetHost\<close> succeeds exactly when its argument is one
  or more characters among the lowercase letters, the digits, \<^verbatim>\<open>.\<close> and \<^verbatim>\<open>-\<close>, or a bracketed
  literal of one or more hexadecimal digits and colons. On success only the field set
  changes; otherwise the setter returns the error \<^verbatim>\<open>invalid scheme\<close> or \<^verbatim>\<open>invalid host\<close> and
  leaves the descriptor as it was.
\<close>

theorem setters_validate:
  "SetScheme u s =
     (if valid_scheme s then (None, u\<lparr>scheme := s\<rparr>) else (Some (errors_New ''invalid scheme''), u))
   \<and> SetHost u h =
     (if valid_host h then (None, u\<lparr>host := h\<rparr>) else (Some (errors_New ''invalid host''), u))"
  using FindStringSubmatch_scheme [of s] FindStringSubmatch_host [of h]
  by (auto simp add: SetScheme_def SetHost_def split: option.split)

lemma unat_port_decode: "unat (port (decodeURI (Some e))) = unat (Port e) mod 2 ^ 16"
  by (simp add: decodeURI_def unsigned_ucast_eq take_bit_eq_mod)

lemma parse_70000:
  "parseAddress ''localhost:70000'' = Inr \<lparr>scheme = ''http'', host = ''localhost'', port = 4464\<rparr>"
  by code_simp

text \<open>
  Claim C9. An address whose port is a string of decimal digits with a value above 65535
  and inside the range of \<^verbatim>\<open>int\<close> parses without error, and the port stored is the value
  modulo \<open>2 ^ 16\<close>: \<^verbatim>\<open>localhost:70000\<close> gives port 4464. Decoding a wire envelope narrows
  its 32-bit port in the same way.
\<close>

theorem port_narrowing:
  assumes "pred_option valid_scheme so" and "pred_option valid_host ho" and "valid_port p"
    and "65535 < dec_val p" and "dec_val p < 2 ^ 63"
  shows "parseAddress (address_of so ho (Some p)) =
           Inr \<lparr>scheme = (case so of None \<Rightarrow> ''http'' | Some s \<Rightarrow> s),
                host = (case ho of None \<Rightarrow> ''localhost'' | Some h \<Rightarrow> h),
                port = of_nat (dec_val p)\<rparr>
         \<and> unat (of_nat (dec_val p) :: 16 word) = dec_val p mod 2 ^ 16
         \<and> parseAddress ''localhost:70000''
             = Inr \<lparr>scheme = ''http'', host = ''localhost'', port = 4464\<rparr>
         \<and> unat (port (decodeURI (Some e))) = unat (Port e) mod 2 ^ 16"
  using parseAddress_address_of [OF assms(1,2), of "Some p"] assms(3,5) parse_70000 unat_port_decode [of e]
  by (simp add: unat_of_nat)

theorem port_narrowing_witness:
  "pred_option valid_scheme None \<and> pred_option valid_host (Some ''localhost'') \<and> valid_port ''70000''
   \<and> 65535 < dec_val ''70000'' \<and> dec_val ''70000'' < 2 ^ 63
   \<and> parseAddress (address_of None (Some ''localhost'') (Some ''70000''))
       = Inr \<lparr>scheme = ''http'', host = ''localhost'', port = 4464\<rparr>
   \<and> unat (port (decodeURI (Some \<lparr>Scheme = ''http'', Host = ''h'', Port = 70000\<rparr>))) = 4464"
proof -
  have h: "pred_option valid_scheme None" "pred_option valid_host (Some ''localhost'')" "valid_port ''70000''"
    by (simp_all add: valid_host_def bare_host_def host_char_def is_lower_def valid_port_def is_digit_def)
  have d: "dec_val ''70000'' = 70000"
    by (simp add: dec_val_def digit_val_def)
  have b: "65535 < dec_val ''70000''" "dec_val ''70000'' < 2 ^ 63" by (simp_all add: d)
  show ?thesis
    using port_narrowing [OF h b, of "\<lparr>Scheme = ''http'', Host = ''h'', Port = 70000\<rparr>"] h b
    by (simp add: d)
qed

lemma parse_examples:
  "parseAddress ''http://localhost:10101'' = Inr \<lparr>scheme = ''http'', host = ''localhost'', port = 10101\<rparr>"
  "parseAddress ''http://localhost'' = Inr \<lparr>scheme = ''http'', host = ''localhost'', port = 10101\<rparr>"
  "parseAddress ''http://:10101'' = Inr \<lparr>scheme = ''http'', host = ''localhost'', port = 10101\<rparr>"
  "parseAddress ''localhost:10101'' = Inr \<lparr>scheme = ''http'', host = ''localhost'', port = 10101\<rparr>"
  "parseAddress ''localhost'' = Inr \<lparr>scheme = ''http'', host = ''localhost'', port = 10101\<rparr>"
  "parseAddress '':10101'' = Inr \<lparr>scheme = ''http'', host = ''localhost'', port = 10101\<rparr>"
  by code_simp+

text \<open>
  Claim C1. Each of \<^verbatim>\<open>http://localhost:10101\<close>, \<^verbatim>\<open>http://localhost\<close>, \<^verbatim>\<open>http://:10101\<close>,
  \<^verbatim>\<open>localhost:10101\<close>, \<^verbatim>\<open>localhost\<close>, \<^verbatim>\<open>:10101\<close> and the empty string parses to scheme
  \<^verbatim>\<open>http\<close>, host \<^verbatim>\<open>localhost\<close>, port 10101. In general, for an address made of an optional
  scheme, an optional host and an optional port of the grammar (the port inside the range
  of \<^verbatim>\<open>int\<close>), parsing succeeds, returns the parts that are present, and replaces each
  absent part by its default.
\<close>

theorem parseAddress_defaults:
  assumes "pred_option valid_scheme so" and "pred_option valid_host ho" and "pred_option valid_port po"
    and "pred_option (\<lambda>p. dec_val p < 2 ^ 63) po"
  shows "parseAddress (address_of so ho po) =
           Inr \<lparr>scheme = (case so of None \<Rightarrow> ''http'' | Some s \<Rightarrow> s),
                host = (case ho of None \<Rightarrow> ''localhost'' | Some h \<Rightarrow> h),
                port = (case po of None \<Rightarrow> 10101 | Some p \<Rightarrow> of_nat (dec_val p))\<rparr>
         \<and> NewURIFromAddress (address_of so ho po) = parseAddress (address_of so ho po)
         \<and> parseAddress ''http://localhost:10101'' = Inr \<lparr>scheme = ''http'', host = ''localhost'', port = 10101\<rparr>
         \<and> parseAddress ''http://localhost'' = Inr \<lparr>scheme = ''http'', host = ''localhost'', port = 10101\<rparr>
         \<and> parseAddress ''http://:10101'' = Inr \<lparr>scheme = ''http'', host = ''localhost'', port = 10101\<rparr>
         \<and> parseAddress ''localhost:10101'' = Inr \<lparr>scheme = ''http'', host = ''localhost'', port = 10101\<rparr>
         \<and> parseAddress ''localhost'' = Inr \<lparr>scheme = ''http'', host = ''localhost'', port = 10101\<rparr>
         \<and> parseAddress '':10101'' = Inr \<lparr>scheme = ''http'', host = ''localhost'', port = 10101\<rparr>
         \<and> parseAddress '''' = Inr \<lparr>scheme = ''http'', host = ''localhost'', port = 10101\<rparr>"
proof -
  have "parseAddress (address_of so ho po) =
           Inr \<lparr>scheme = (case so of None \<Rightarrow> ''http'' | Some s \<Rightarrow> s),
                host = (case ho of None \<Rightarrow> ''localhost'' | Some h \<Rightarrow> h),
                port = (case po of None \<Rightarrow> 10101 | Some p \<Rightarrow> of_nat (dec_val p))\<rparr>"
    using parseAddress_address_of [OF assms(1,2,3)] assms(4) by (cases po) simp_all
  then show ?thesis
    using parse_examples parse_empty by (simp add: NewURIFromAddress_def)
qed

theorem parseAddress_defaults_witness:
  "pred_option valid_scheme None \<and> pred_option valid_host (Some ''node1'')
   \<and> pred_option valid_port (Some ''8080'') \<and> pred_option (\<lambda>p. dec_val p < 2 ^ 63) (Some ''8080'')
   \<and> parseAddress (address_of None (Some ''node1'') (Some ''8080''))
       = Inr \<lparr>scheme = ''http'', host = ''node1'', port = 8080\<rparr>
   \<and> parseAddress (address_of (Some ''https'') None None)
       = Inr \<lparr>scheme = ''https'', host = ''localhost'', port = 10101\<rparr>"
proof -
  have d: "dec_val ''8080'' = 8080"
    by (simp add: dec_val_def digit_val_def)
  have h: "pred_option valid_scheme None" "pred_option valid_host (Some ''node1'')"
    "pred_option valid_port (Some ''8080'')" "pred_option (\<lambda>p. dec_val p < 2 ^ 63) (Some ''8080'')"
    by (simp_all add: valid_host_def bare_host_def host_char_def is_lower_def valid_port_def is_digit_def d)
  have g: "pred_option valid_scheme (Some ''https'')" "pred_option valid_host None"
    "pred_option valid_port None" "pred_option (\<lambda>p. dec_val p < 2 ^ 63) None"
    by (simp_all add: valid_scheme_def scheme_char_def is_lower_def)
  show ?thesis
    using parseAddress_defaults [OF h] parseAddress_defaults [OF g] h
    by (simp add: d)
qed

lemma parse_bad_port:
  "parseAddress ''http://host:abc'' = Inl (errors_New ''invalid address'')"
  by code_simp

lemma parse_bad_host:
  "parseAddress ''bad_host!!:10101'' = Inl (errors_New ''invalid address'')"
  by code_simp

lemma parse_not_hex:
  "parseAddress ''http://[not-hex]'' = Inl (errors_New ''invalid address'')"
  by code_simp

lemma parse_huge_port:
  "parseAddress ''localhost:9223372036854775808'' = Inl (errors_New ''converting port string to int'')"
  by code_simp

text \<open>
  Claim C3, as stated, wants a port that is not a number, as in \<^verbatim>\<open>http://host:abc\<close>, to fail
  with the port conversion error. The address pattern admits only digits after the colon,
  so that address does not match at all: it fails with \<^verbatim>\<open>invalid address\<close>, the error of a
  malformed host.
\<close>

theorem bad_port_is_invalid_address:
  "parseAddress ''http://host:abc'' \<noteq> Inl (errors_New ''converting port string to int'')
   \<and> parseAddress ''http://host:abc'' = parseAddress ''bad_host!!:10101''"
  using parse_bad_port parse_bad_host by simp

text \<open>
  Claim C3, amended. Parsing fails with \<^verbatim>\<open>invalid address\<close> exactly when the string does not
  match the grammar, which includes a port that is not all digits (\<^verbatim>\<open>http://host:abc\<close>).
  It fails with the other error, \<^verbatim>\<open>converting port string to int\<close>, exactly when the string
  matches the grammar and its port digits denote a value outside the range of \<^verbatim>\<open>int\<close>.
  These are the only two errors, and a failure returns no descriptor.
\<close>

theorem parseAddress_errors:
  "(parseAddress a = Inl (errors_New ''invalid address'')) = (\<not> matches_grammar a)
   \<and> (parseAddress a = Inl (errors_New ''converting port string to int''))
       = (\<exists>so ho p. pred_option valid_scheme so \<and> pred_option valid_host ho \<and> valid_port p
                    \<and> 2 ^ 63 \<le> dec_val p \<and> a = address_of so ho (Some p))
   \<and> (case parseAddress a of
          Inl e \<Rightarrow> e = errors_New ''invalid address'' \<or> e = errors_New ''converting port string to int''
        | Inr u \<Rightarrow> True)
   \<and> errors_New ''invalid address'' \<noteq> errors_New ''converting port string to int''
   \<and> parseAddress ''http://host:abc'' = Inl (errors_New ''invalid address'')
   \<and> parseAddress ''bad_host!!:10101'' = Inl (errors_New ''invalid address'')
   \<and> parseAddress ''http://[not-hex]'' = Inl (errors_New ''invalid address'')
   \<and> parseAddress ''localhost:9223372036854775808'' = Inl (errors_New ''converting port string to int'')"
proof -
  have nomatch: "parseAddress a = Inl (errors_New ''invalid address'')" if "\<not> matches_grammar a"
    using that address_match_iff [of a] by (simp add: parseAddress_def)
  have shape: "\<exists>so ho po. pred_option valid_scheme so \<and> pred_option valid_host ho
                 \<and> pred_option valid_port po \<and> a = address_of so ho po" if "matches_grammar a"
    using that unfolding matches_grammar_def .
  have A: "(parseAddress a = Inl (errors_New ''invalid address'')) = (\<not> matches_grammar a)"
  proof
    assume l: "parseAddress a = Inl (errors_New ''invalid address'')"
    show "\<not> matches_grammar a"
    proof
      assume "matches_grammar a"
      then obtain so ho po where v: "pred_option valid_scheme so" "pred_option valid_host ho"
        "pred_option valid_port po" "a = address_of so ho po" using shape by blast
      show False
        using l parseAddress_address_of [OF v(1,2,3)] v(4)
        by (cases po) (simp_all split: if_splits)
    qed
  qed (rule nomatch)
  have B: "(parseAddress a = Inl (errors_New ''converting port string to int''))
       = (\<exists>so ho p. pred_option valid_scheme so \<and> pred_option valid_host ho \<and> valid_port p
                    \<and> 2 ^ 63 \<le> dec_val p \<and> a = address_of so ho (Some p))"
  proof
    assume l: "parseAddress a = Inl (errors_New ''converting port string to int'')"
    then have "matches_grammar a" using nomatch by force
    then obtain so ho po where v: "pred_option valid_scheme so" "pred_option valid_host ho"
      "pred_option valid_port po" "a = address_of so ho po" using shape by blast
    from l parseAddress_address_of [OF v(1,2,3)] v(4)
    obtain p where "po = Some p" "\<not> dec_val p < 2 ^ 63"
      by (cases po) (simp_all split: if_splits)
    then show "\<exists>so ho p. pred_option valid_scheme so \<and> pred_option valid_host ho \<and> valid_port p
                    \<and> 2 ^ 63 \<le> dec_val p \<and> a = address_of so ho (Some p)"
      using v by (intro exI [of _ so] exI [of _ ho] exI [of _ p]) simp
  next
    assume "\<exists>so ho p. pred_option valid_scheme so \<and> pred_option valid_host ho \<and> valid_port p
                    \<and> 2 ^ 63 \<le> dec_val p \<and> a = address_of so ho (Some p)"
    then obtain so ho p where v: "pred_option valid_scheme so" "pred_option valid_host ho" "valid_port p"
      "2 ^ 63 \<le> dec_val p" "a = address_of so ho (Some p)" by blast
    show "parseAddress a = Inl (errors_New ''converting port string to int'')"
      using parseAddress_address_of [OF v(1,2), of "Some p"] v(3,4,5) by simp
  qed
  have C: "case parseAddress a of
          Inl e \<Rightarrow> e = errors_New ''invalid address'' \<or> e = errors_New ''converting port string to int''
        | Inr u \<Rightarrow> True"
    by (auto simp add: parseAddress_def Let_def split: option.splits sum.splits if_splits)
  show ?thesis
    using A B C parse_bad_port parse_bad_host parse_not_hex parse_huge_port by simp
qed

subsection \<open>The JSON form\<close>

lemma mod_offset:
  fixes b :: nat
  assumes "b = q * m + x" and "x < m"
  shows "b mod m = x"
  using assms by simp

lemma mask2: "192 \<le> (b::nat) \<Longrightarrow> b < 224 \<Longrightarrow> b mod 32 = b - 192"
  using mod_offset [of b 6 32 "b - 192"] by simp

lemma mask3: "224 \<le> (b::nat) \<Longrightarrow> b < 240 \<Longrightarrow> b mod 16 = b - 224"
  using mod_offset [of b 14 16 "b - 224"] by simp

lemma mask4: "240 \<le> (b::nat) \<Longrightarrow> b < 248 \<Longrightarrow> b mod 8 = b - 240"
  using mod_offset [of b 30 8 "b - 240"] by simp

lemma maskx: "128 \<le> (b::nat) \<Longrightarrow> b \<le> 191 \<Longrightarrow> b mod 64 = b - 128"
  using mod_offset [of b 2 64 "b - 128"] by simp

lemma split2:
  fixes x y :: nat
  assumes "y < 64"
  shows "(x * 64 + y) div 64 = x" and "(x * 64 + y) mod 64 = y"
  using assms by simp_all

lemma split3:
  fixes x y z :: nat
  assumes "y < 64" and "z < 64"
  shows "(x * 4096 + y * 64 + z) div 4096 = x"
    and "(x * 4096 + y * 64 + z) div 64 mod 64 = y"
    and "(x * 4096 + y * 64 + z) mod 64 = z"
proof -
  have a: "x * 4096 + y * 64 + z = x * 4096 + (y * 64 + z)" by simp
  have b: "y * 64 + z < 4096" using assms by simp
  show "(x * 4096 + y * 64 + z) div 4096 = x" unfolding a using b by simp
  have c: "x * 4096 + y * 64 + z = (x * 64 + y) * 64 + z" by simp
  have "((x * 64 + y) * 64 + z) div 64 = x * 64 + y" by (rule split2(1) [OF assms(2)])
  then show "(x * 4096 + y * 64 + z) div 64 mod 64 = y"
    by (simp only: c split2(2) [OF assms(1)])
  show "(x * 4096 + y * 64 + z) mod 64 = z"
    by (simp only: c split2(2) [OF assms(2)])
qed

lemma split4:
  fixes x y z w :: nat
  assumes "y < 64" and "z < 64" and "w < 64"
  shows "(x * 262144 + y * 4096 + z * 64 + w) div 262144 = x"
    and "(x * 262144 + y * 4096 + z * 64 + w) div 4096 mod 64 = y"
    and "(x * 262144 + y * 4096 + z * 64 + w) div 64 mod 64 = z"
    and "(x * 262144 + y * 4096 + z * 64 + w) mod 64 = w"
proof -
  let ?r = "x * 262144 + y * 4096 + z * 64 + w"
  have a: "?r = x * 262144 + (y * 4096 + z * 64 + w)" by simp
  have b: "y * 4096 + z * 64 + w < 262144" using assms by simp
  show "?r div 262144 = x" unfolding a using b by simp
  have c: "?r = (x * 64 + y) * 4096 + z * 64 + w" by simp
  show "?r div 4096 mod 64 = y"
    by (simp only: c split3(1) [OF assms(2,3)] split2(2) [OF assms(1)])
  have e: "?r = ((x * 64 + y) * 64 + z) * 64 + w" by simp
  have "(((x * 64 + y) * 64 + z) * 64 + w) div 64 = (x * 64 + y) * 64 + z"
    by (rule split2(1) [OF assms(3)])
  then show "?r div 64 mod 64 = z"
    by (simp only: e split2(2) [OF assms(2)])
  show "?r mod 64 = w"
    by (simp only: e split2(2) [OF assms(3)])
qed

lemma enc2:
  fixes b0 b1 :: nat
  assumes "0xC2 \<le> b0" "b0 < 0xE0" "0x80 \<le> b1" "b1 \<le> 0xBF"
  shows "EncodeRune ((b0 mod 32) * 64 + b1 mod 64) = [char_of b0, char_of b1]"
proof -
  define x y where "x = b0 - 192" and "y = b1 - 128"
  have b: "b0 = 192 + x" "b1 = 128 + y" "2 \<le> x" "x < 32" "y < 64"
    using assms by (simp_all add: x_def y_def)
  have m: "b0 mod 32 = x" "b1 mod 64 = y"
    using mask2 [of b0] maskx [of b1] assms by (simp_all add: x_def y_def)
  have r: "\<not> x * 64 + y \<le> 0x7F" "x * 64 + y \<le> 0x7FF" using b by simp_all
  show ?thesis
    unfolding m EncodeRune_def using r split2 [OF b(5), of x] b(1,2) by simp
qed

lemma enc3:
  fixes b0 b1 b2 :: nat
  assumes "0xE0 \<le> b0" "b0 < 0xF0" "0x80 \<le> b1" "b1 \<le> 0xBF" "0x80 \<le> b2" "b2 \<le> 0xBF"
    and "b0 = 0xE0 \<Longrightarrow> 0xA0 \<le> b1" and "b0 = 0xED \<Longrightarrow> b1 \<le> 0x9F"
  shows "EncodeRune ((b0 mod 16) * 4096 + (b1 mod 64) * 64 + b2 mod 64) = [char_of b0, char_of b1, char_of b2]"
proof -
  define x y z where "x = b0 - 224" and "y = b1 - 128" and "z = b2 - 128"
  have b: "b0 = 224 + x" "b1 = 128 + y" "b2 = 128 + z" "x < 16" "y < 64" "z < 64"
    using assms(1-6) by (simp_all add: x_def y_def z_def)
  have m: "b0 mod 16 = x" "b1 mod 64 = y" "b2 mod 64 = z"
    using mask3 [of b0] maskx [of b1] maskx [of b2] assms(1-6) by (simp_all add: x_def y_def z_def)
  have x0: "x = 0 \<Longrightarrow> 32 \<le> y" using assms(7) b by simp
  have x13: "x = 13 \<Longrightarrow> y \<le> 31" using assms(8) b by simp
  have lo: "\<not> x * 4096 + y * 64 + z \<le> 0x7FF" using x0 by (cases "x = 0") simp_all
  have hi: "x * 4096 + y * 64 + z \<le> 0xFFFF" using b(4,5,6) by simp
  have ns: "\<not> (0xD800 \<le> x * 4096 + y * 64 + z \<and> x * 4096 + y * 64 + z \<le> 0xDFFF)"
    using x13 b(4,5,6) by (cases "x = 13") arith+
  show ?thesis
    unfolding m EncodeRune_def encode3_def
    using lo hi ns split3 [OF b(5,6), of x] b(1,2,3) by auto
qed

lemma enc4:
  fixes b0 b1 b2 b3 :: nat
  assumes "0xF0 \<le> b0" "b0 \<le> 0xF4" "0x80 \<le> b1" "b1 \<le> 0xBF" "0x80 \<le> b2" "b2 \<le> 0xBF"
    "0x80 \<le> b3" "b3 \<le> 0xBF"
    and "b0 = 0xF0 \<Longrightarrow> 0x90 \<le> b1" and "b0 = 0xF4 \<Longrightarrow> b1 \<le> 0x8F"
  shows "EncodeRune ((b0 mod 8) * 262144 + (b1 mod 64) * 4096 + (b2 mod 64) * 64 + b3 mod 64)
         = [char_of b0, char_of b1, char_of b2, char_of b3]"
proof -
  define x y z w where "x = b0 - 240" and "y = b1 - 128" and "z = b2 - 128" and "w = b3 - 128"
  have b: "b0 = 240 + x" "b1 = 128 + y" "b2 = 128 + z" "b3 = 128 + w" "x \<le> 4" "y < 64" "z < 64" "w < 64"
    using assms(1-8) by (simp_all add: x_def y_def z_def w_def)
  have m: "b0 mod 8 = x" "b1 mod 64 = y" "b2 mod 64 = z" "b3 mod 64 = w"
    using mask4 [of b0] maskx [of b1] maskx [of b2] maskx [of b3] assms(1-8)
    by (simp_all add: x_def y_def z_def w_def)
  have x0: "x = 0 \<Longrightarrow> 16 \<le> y" using assms(9) b by simp
  have x4: "x = 4 \<Longrightarrow> y \<le> 15" using assms(10) b by simp
  have lo: "\<not> x * 262144 + y * 4096 + z * 64 + w \<le> 0xFFFF" using x0 by (cases "x = 0") simp_all
  have hi: "\<not> 0x10FFFF < x * 262144 + y * 4096 + z * 64 + w"
    using x4 b(5,6,7,8) by (cases "x = 4") arith+
  show ?thesis
    unfolding m EncodeRune_def
    using lo hi split4 [OF b(6,7,8), of x] b(1,2,3,4) by simp
qed

lemma char_of_byte [simp]: "char_of (byte c) = c"
  by (simp add: byte_def)

lemma DecodeRune_ascii: "byte b < 0x80 \<Longrightarrow> DecodeRune (b # s) = (byte b, 1)"
  by simp

lemma DecodeRune_bad: "0x80 \<le> byte b \<Longrightarrow> byte b < 0xC2 \<or> 0xF4 < byte b \<Longrightarrow> DecodeRune (b # s) = (RuneError, 1)"
  by auto

lemma DecodeRune2:
  assumes "0xC2 \<le> byte b" "byte b < 0xE0"
  shows "DecodeRune (b # s) =
     (case s of
        p1 # s' \<Rightarrow>
          if 0x80 \<le> byte p1 \<and> byte p1 \<le> 0xBF
          then ((byte b mod 32) * 64 + byte p1 mod 64, 2) else (RuneError, 1)
      | [] \<Rightarrow> (RuneError, 1))"
  using assms by (cases s) (auto simp: Let_def)

lemma DecodeRune3:
  assumes "0xE0 \<le> byte b" "byte b < 0xF0"
  shows "DecodeRune (b # s) =
     (case s of
        p1 # p2 # s' \<Rightarrow>
          if (if byte b = 0xE0 then 0xA0 else 0x80) \<le> byte p1
             \<and> byte p1 \<le> (if byte b = 0xED then 0x9F else 0xBF)
             \<and> 0x80 \<le> byte p2 \<and> byte p2 \<le> 0xBF
          then ((byte b mod 16) * 4096 + (byte p1 mod 64) * 64 + byte p2 mod 64, 3) else (RuneError, 1)
      | _ \<Rightarrow> (RuneError, 1))"
  using assms by (cases s; cases "tl s") (auto simp: Let_def)

lemma DecodeRune4:
  assumes "0xF0 \<le> byte b" "byte b \<le> 0xF4"
  shows "DecodeRune (b # s) =
     (case s of
        p1 # p2 # p3 # s' \<Rightarrow>
          if (if byte b = 0xF0 then 0x90 else 0x80) \<le> byte p1
             \<and> byte p1 \<le> (if byte b = 0xF4 then 0x8F else 0xBF)
             \<and> 0x80 \<le> byte p2 \<and> byte p2 \<le> 0xBF \<and> 0x80 \<le> byte p3 \<and> byte p3 \<le> 0xBF
          then ((byte b mod 8) * 262144 + (byte p1 mod 64) * 4096 + (byte p2 mod 64) * 64 + byte p3 mod 64, 4)
          else (RuneError, 1)
      | _ \<Rightarrow> (RuneError, 1))"
  using assms by (cases s; cases "tl s"; cases "tl (tl s)") (auto simp: Let_def)

lemma DecodeRune_multi:
  assumes "0x80 \<le> byte b" and "DecodeRune (b # s) = (c, n)" and "\<not> (c = RuneError \<and> n = 1)"
  shows "EncodeRune c = b # take (n - 1) s \<and> length (take (n - 1) s) = n - 1 \<and> 2 \<le> n
         \<and> DecodeRune (b # take (n - 1) s @ t) = (c, n)"
proof -
  consider (bad) "byte b < 0xC2 \<or> 0xF4 < byte b"
    | (two) "0xC2 \<le> byte b" "byte b < 0xE0"
    | (three) "0xE0 \<le> byte b" "byte b < 0xF0"
    | (four) "0xF0 \<le> byte b" "byte b \<le> 0xF4"
    by linarith
  then show ?thesis
  proof cases
    case bad
    then show ?thesis using assms DecodeRune_bad [of b s] by simp
  next
    case two
    from assms(2,3) obtain p1 s' where s: "s = p1 # s'" and r: "0x80 \<le> byte p1" "byte p1 \<le> 0xBF"
      and c: "c = (byte b mod 32) * 64 + byte p1 mod 64" "n = 2"
      unfolding DecodeRune2 [OF two] by (cases s) (auto split: if_splits)
    have "EncodeRune c = [b, p1]"
      unfolding c using enc2 [OF two r] by simp
    moreover have "DecodeRune (b # p1 # t) = (c, n)"
      unfolding DecodeRune2 [OF two] c using r by simp
    ultimately show ?thesis using s c by simp
  next
    case three
    from assms(2,3) obtain p1 p2 s' where s: "s = p1 # p2 # s'"
      and r: "0x80 \<le> byte p1" "byte p1 \<le> 0xBF" "0x80 \<le> byte p2" "byte p2 \<le> 0xBF"
        "byte b = 0xE0 \<Longrightarrow> 0xA0 \<le> byte p1" "byte b = 0xED \<Longrightarrow> byte p1 \<le> 0x9F"
      and c: "c = (byte b mod 16) * 4096 + (byte p1 mod 64) * 64 + byte p2 mod 64" "n = 3"
      unfolding DecodeRune3 [OF three] by (cases s; cases "tl s") (auto split: if_splits)
    have "EncodeRune c = [b, p1, p2]"
      unfolding c using enc3 [OF three r] by simp
    moreover have "DecodeRune (b # p1 # p2 # t) = (c, n)"
      unfolding DecodeRune3 [OF three] c using r by auto
    ultimately show ?thesis using s c by simp
  next
    case four
    from assms(2,3) obtain p1 p2 p3 s' where s: "s = p1 # p2 # p3 # s'"
      and r: "0x80 \<le> byte p1" "byte p1 \<le> 0xBF" "0x80 \<le> byte p2" "byte p2 \<le> 0xBF"
        "0x80 \<le> byte p3" "byte p3 \<le> 0xBF"
        "byte b = 0xF0 \<Longrightarrow> 0x90 \<le> byte p1" "byte b = 0xF4 \<Longrightarrow> byte p1 \<le> 0x8F"
      and c: "c = (byte b mod 8) * 262144 + (byte p1 mod 64) * 4096 + (byte p2 mod 64) * 64 + byte p3 mod 64"
        "n = 4"
      unfolding DecodeRune4 [OF four] by (cases s; cases "tl s"; cases "tl (tl s)") (auto split: if_splits)
    have "EncodeRune c = [b, p1, p2, p3]"
      unfolding c using enc4 [OF four r] by simp
    moreover have "DecodeRune (b # p1 # p2 # p3 # t) = (c, n)"
      unfolding DecodeRune4 [OF four] c using r by auto
    ultimately show ?thesis using s c by simp
  qed
qed

lemma hex_val_hex_all: "list_all (\<lambda>k. hex_val (hex ! k) = Some k) [0..<16]"
  by code_simp

lemma hex_val_hex: "k < 16 \<Longrightarrow> hex_val (hex ! k) = Some k"
  using hex_val_hex_all by (simp add: list_all_iff)

lemma getu4_00:
  assumes "x < 16" "y < 16"
  shows "getu4 (CHR ''0'' # CHR ''0'' # hex ! x # hex ! y # t) = Some (x * 16 + y)"
  using hex_val_hex [OF assms(1)] hex_val_hex [OF assms(2)]
  by (simp add: getu4_def) (simp add: hex_val_def is_digit_def byte_def)

lemma getu4_202:
  assumes "y < 16"
  shows "getu4 (CHR ''2'' # CHR ''0'' # CHR ''2'' # hex ! y # t) = Some (0x2020 + y)"
  using hex_val_hex [OF assms(1)]
  by (simp add: getu4_def) (simp add: hex_val_def is_digit_def byte_def)

lemma emit_Some [simp]: "emit w (Some (t, rest)) = Some (w @ t, rest)"
  by (simp add: emit_def)

lemma ValidString_Cons:
  "ValidString (b # s) =
     (case DecodeRune (b # s) of (c, n) \<Rightarrow> \<not> (c = RuneError \<and> n = 1) \<and> ValidString (drop (n - 1) s))"
  by simp

lemma unquote_ascii_step:
  assumes "byte b < 0x80"
    and "unquote_body (t @ rest) = Some (s, rest')"
  shows "unquote_body
           ((if htmlSafe b then [b]
             else if b = CHR 0x5C \<or> b = CHR 0x22 then [CHR 0x5C, b]
             else if b = CHR 0x0A then [CHR 0x5C, CHR ''n'']
             else if b = CHR 0x0D then [CHR 0x5C, CHR ''r'']
             else if b = CHR 0x09 then [CHR 0x5C, CHR ''t'']
             else CHR 0x5C # ''u00'' @ [hex ! (byte b div 16), hex ! (byte b mod 16)]) @ t @ rest)
         = Some (b # s, rest')"
proof -
  have d: "byte b div 16 < 16" "byte b mod 16 < 16" using assms(1) by simp_all
  have e: "byte b div 16 * 16 + byte b mod 16 = byte b" by simp
  have enc: "EncodeRune (byte b) = [b]" using assms(1) by (simp add: EncodeRune_def)
  have ns: "\<not> IsSurrogate (byte b)" using assms(1) by (simp add: IsSurrogate_def)
  show ?thesis
    using assms(2) getu4_00 [OF d, of "t @ rest"] enc ns
    by (auto simp add: htmlSafe_def simple_escape_def e byte_def)
qed

declare DecodeRune.simps [simp del]

lemma encode_string_body_multi:
  assumes "\<not> byte b < 0x80" and "DecodeRune (b # s) = (c, n)" and "\<not> (c = RuneError \<and> n = 1)"
  shows "encode_string_body (b # s) =
           (if c = 0x2028 \<or> c = 0x2029
            then CHR 0x5C # ''u202'' @ [hex ! (c mod 16)] @ encode_string_body (drop (n - 1) s)
            else b # take (n - 1) s @ encode_string_body (drop (n - 1) s))"
  using assms by (auto simp: RuneError_def)

lemma encode_string_body_ascii:
  assumes "byte b < 0x80"
  shows "encode_string_body (b # s) =
           (if htmlSafe b then [b]
            else if b = CHR 0x5C \<or> b = CHR 0x22 then [CHR 0x5C, b]
            else if b = CHR 0x0A then [CHR 0x5C, CHR ''n'']
            else if b = CHR 0x0D then [CHR 0x5C, CHR ''r'']
            else if b = CHR 0x09 then [CHR 0x5C, CHR ''t'']
            else CHR 0x5C # ''u00'' @ [hex ! (byte b div 16), hex ! (byte b mod 16)])
           @ encode_string_body s"
  using assms by simp

lemma unquote_body_multi:
  assumes "0x80 \<le> byte b" and "DecodeRune (b # s) = (c, n)"
  shows "unquote_body (b # s) = emit (EncodeRune c) (unquote_body (drop (n - 1) s))"
proof -
  have "b \<noteq> CHR 0x22" "b \<noteq> CHR 0x5C" "\<not> byte b < 0x20" "\<not> byte b < 0x80"
    using assms(1) by (auto simp: byte_def)
  then show ?thesis using assms(2) by simp
qed

lemma unquote_body_u:
  assumes "getu4 s = Some rr" and "\<not> IsSurrogate rr"
  shows "unquote_body (CHR 0x5C # CHR ''u'' # s) = emit (EncodeRune rr) (unquote_body (drop 4 s))"
  using assms by simp

declare encode_string_body.simps [simp del] unquote_body.simps [simp del]

lemma unquote_encode:
  "ValidString s \<Longrightarrow> unquote_body (encode_string_body s @ CHR 0x22 # rest) = Some (s, rest)"
proof (induction "length s" arbitrary: s rule: less_induct)
  case less
  show ?case
  proof (cases s)
    case Nil
    then show ?thesis by (simp add: encode_string_body.simps unquote_body.simps)
  next
    case (Cons b s')
    obtain c n where d: "DecodeRune (b # s') = (c, n)" by (cases "DecodeRune (b # s')")
    from less.prems Cons d have v: "\<not> (c = RuneError \<and> n = 1)" "ValidString (drop (n - 1) s')"
      by simp_all
    show ?thesis
    proof (cases "byte b < 0x80")
      case True
      then have "n = 1" using d by (simp add: DecodeRune.simps)
      then have "ValidString s'" using v(2) by simp
      then have ih: "unquote_body (encode_string_body s' @ CHR 0x22 # rest) = Some (s', rest)"
        using less.hyps [of s'] Cons by simp
      show ?thesis
        unfolding Cons encode_string_body_ascii [OF True]
        using unquote_ascii_step [OF True, of "encode_string_body s'" "CHR 0x22 # rest" s' rest] ih
        by simp
    next
      case False
      then have hi: "0x80 \<le> byte b" by simp
      let ?p = "take (n - 1) s'" and ?r = "drop (n - 1) s'"
      let ?t = "encode_string_body ?r @ CHR 0x22 # rest"
      from DecodeRune_multi [OF hi d v(1), of ?t]
      have m: "EncodeRune c = b # ?p" "length ?p = n - 1" "2 \<le> n" "DecodeRune (b # ?p @ ?t) = (c, n)"
        by simp_all
      have ih: "unquote_body ?t = Some (?r, rest)"
        using less.hyps [of ?r] Cons v(2) by simp
      show ?thesis
      proof (cases "c = 0x2028 \<or> c = 0x2029")
        case True
        then have c16: "c mod 16 < 16" "0x2020 + c mod 16 = c" by auto
        have ns: "\<not> IsSurrogate c" using True by (auto simp: IsSurrogate_def)
        have g: "getu4 (CHR ''2'' # CHR ''0'' # CHR ''2'' # hex ! (c mod 16) # ?t) = Some c"
          using getu4_202 [OF c16(1), of ?t] c16(2) by simp
        have "unquote_body (CHR 0x5C # CHR ''u'' # CHR ''2'' # CHR ''0'' # CHR ''2'' # hex ! (c mod 16) # ?t)
              = emit (EncodeRune c) (unquote_body ?t)"
          using unquote_body_u [OF g ns] by simp
        then show ?thesis
          unfolding Cons encode_string_body_multi [OF False d v(1)]
          using True m(1) ih by simp
      next
        case nsep: False
        have "unquote_body (b # ?p @ ?t) = emit (EncodeRune c) (unquote_body (drop (n - 1) (?p @ ?t)))"
          by (rule unquote_body_multi [OF hi m(4)])
        then show ?thesis
          unfolding Cons encode_string_body_multi [OF False d v(1)]
          using nsep m(1,2) ih by simp
      qed
    qed
  qed
qed

lemma unquote_encode_string:
  "ValidString s \<Longrightarrow> unquote_body (tl (encode_string s) @ rest) = Some (s, rest)"
  using unquote_encode [of s rest] by (simp add: encode_string_def)


lemma skip_ws_nonspace [simp]: "\<not> is_space c \<Longrightarrow> skip_ws (c # s) = c # s"
  by (simp add: skip_ws_def)

lemma quote_not_space [simp]: "\<not> is_space (CHR 0x22)"
  by (simp add: is_space_def)

lemma punct_not_space [simp]:
  "\<not> is_space CHR '':''" "\<not> is_space CHR '',''" "\<not> is_space CHR ''}''" "\<not> is_space CHR ''{''"
  by (simp_all add: is_space_def)























end
